theory Spec2Isabelle
  imports Main "HOL-Library.List_Lexorder" "HOL-Library.Char_ord"
begin

section \<open>Data model\<close>

text \<open>
  Modelled from the spec: the \<open>Version\<close> struct, which is declared outside the files at
  hand. A row of the \<open>versions\<close> table has the fields the catalog code reads or writes:
  \<open>ID\<close>, \<open>ModID\<close>, \<open>Version\<close> (the version string), \<open>Stability\<close>, \<open>Approved\<close>,
  \<open>Denied\<close>, \<open>Downloads\<close>, \<open>CreatedAt\<close> and \<open>Key\<close> (the object key of the artifact).
  Times are integers counting nanoseconds, the unit of Go's \<open>time.Duration\<close>. The download
  counter is a natural number, the counter of the specification's data model: the width
  of the field is not visible in the code at hand and no bound on it is modelled.
\<close>

type_synonym time = int

record Version =
  ID :: string
  ModID :: string
  Version :: string
  Stability :: string
  Approved :: bool
  Denied :: bool
  Downloads :: nat
  CreatedAt :: time
  Key :: string

record VersionDependency =
  VersionID :: string
  DepModID :: string
  Condition :: string

text \<open>
  Modelled from the spec: the filter descriptor of the \<open>...New\<close> operations, which is
  declared in the \<open>models\<close> package. As in the data model of the specification, limit,
  offset, order field and order direction are always set, the search text is optional and
  the projection is a list of column names. A nil filter is \<open>None\<close>; the parameter the
  code calls \<open>filter\<close> is \<open>vfilter\<close> here.
\<close>

record VersionFilter =
  Limit :: int
  Offset :: int
  OrderBy :: string
  Order :: string
  Search :: "string option"
  Fields :: "string list"

text \<open>
  What go-cache stores is an \<open>interface{}\<close>; the four dynamic types the catalog code
  puts there are the four constructors. A type assertion on the wrong one panics.
\<close>

datatype cval =
    CVersions "Version list"
  | CVersionsPtr "Version list"
  | CVersionPtr Version
  | CCount int

datatype 'a outcome = Panic | Return 'a

text \<open>
  The state the operations work on: the two tables of the relational store, the
  process-wide cache, and the short-window limiter (for every key the instant until
  which it stays admitted).
\<close>

record state =
  versions_tbl :: "Version list"
  deps_tbl :: "VersionDependency list"
  dbCache :: "string \<rightharpoonup> cval"
  limiter :: "(string \<times> string \<times> string) \<rightharpoonup> time"

text \<open>
  The collaborators whose behaviour the catalog code only passes strings to:
  the store's reading of an \<open>ORDER BY\<close> clause (as a comparison of rows), its
  text-search match of a query against a version string, the hash of a filter
  descriptor (\<open>Inl\<close> is the error) and the blob store's link generator.
\<close>

record env =
  row_le :: "string \<Rightarrow> Version \<Rightarrow> Version \<Rightarrow> bool"
  ts_match :: "string \<Rightarrow> string \<Rightarrow> bool"
  Hash :: "VersionFilter option \<Rightarrow> string + string"
  GenerateDownloadLink :: "string \<Rightarrow> string"

section \<open>Formatting\<close>

text \<open>The decimal digit of a number below ten.\<close>

definition digit_char :: "nat \<Rightarrow> char" where
  "digit_char n = ''0123456789'' ! n"

fun sprint_nat :: "nat \<Rightarrow> string" where
  "sprint_nat n =
     (if n < 10 then [digit_char n] else sprint_nat (n div 10) @ [digit_char (n mod 10)])"

declare sprint_nat.simps [simp del]

text \<open>\<open>fmt.Sprint\<close> of an integer and of a boolean.\<close>

definition sprint_int :: "int \<Rightarrow> string" where
  "sprint_int i = (if i < 0 then CHR ''-'' # sprint_nat (nat (- i)) else sprint_nat (nat i))"

definition sprint_bool :: "bool \<Rightarrow> string" where
  "sprint_bool b = (if b then ''true'' else ''false'')"

text \<open>\<open>strings.Join\<close>.\<close>

fun join :: "string \<Rightarrow> string list \<Rightarrow> string" where
  "join sep [] = []"
| "join sep [x] = x"
| "join sep (x # y # ys) = x @ sep @ join sep (y # ys)"

text \<open>\<open>strings.Replace(search, " ", " & ", -1)\<close>: every blank becomes \<open>" & "\<close>.\<close>

definition and_terms :: "string \<Rightarrow> string" where
  "and_terms search = concat (map (\<lambda>c. if c = CHR '' '' then '' & '' else [c]) search)"

section \<open>The store's query interface\<close>

text \<open>Insertion sort by a comparison: the rows in the order an \<open>ORDER BY\<close> gives them.\<close>

fun insert_by :: "('a \<Rightarrow> 'a \<Rightarrow> bool) \<Rightarrow> 'a \<Rightarrow> 'a list \<Rightarrow> 'a list" where
  "insert_by le x [] = [x]"
| "insert_by le x (y # ys) = (if le x y then x # y # ys else y # insert_by le x ys)"

fun sort_by :: "('a \<Rightarrow> 'a \<Rightarrow> bool) \<Rightarrow> 'a list \<Rightarrow> 'a list" where
  "sort_by le [] = []"
| "sort_by le (x # xs) = insert_by le x (sort_by le xs)"

text \<open>\<open>Limit\<close> and \<open>Offset\<close>; a negative argument leaves the clause out.\<close>

definition limit_rows :: "int \<Rightarrow> 'a list \<Rightarrow> 'a list" where
  "limit_rows l rows = (if l < 0 then rows else take (nat l) rows)"

definition offset_rows :: "int \<Rightarrow> 'a list \<Rightarrow> 'a list" where
  "offset_rows off rows = (if off < 0 then rows else drop (nat off) rows)"

text \<open>\<open>Where("approved = ? AND denied = ?", !unapproved, false)\<close>.\<close>

definition visible :: "bool \<Rightarrow> Version \<Rightarrow> bool" where
  "visible unapproved r \<longleftrightarrow> Approved r = (\<not> unapproved) \<and> Denied r = False"

text \<open>\<open>Where("to_tsvector(version) @@ to_tsquery(?)", ...)\<close>.\<close>

definition search_match :: "env \<Rightarrow> string \<Rightarrow> Version \<Rightarrow> bool" where
  "search_match E search r \<longleftrightarrow> ts_match E (and_terms search) (Version r)"

text \<open>
  \<open>First\<close>: the first matching row in primary-key order, if any.
\<close>

definition first_row :: "(Version \<Rightarrow> bool) \<Rightarrow> Version list \<Rightarrow> Version option" where
  "first_row P rows = List.find P (sort_by (\<lambda>a b. ID a \<le> ID b) rows)"

text \<open>\<open>distinct on (mod_id, stability)\<close>: of each group the first row is kept.\<close>

fun distinct_on :: "(Version \<Rightarrow> 'k) \<Rightarrow> Version list \<Rightarrow> Version list" where
  "distinct_on k [] = []"
| "distinct_on k (r # rs) = r # distinct_on k (filter (\<lambda>x. k x \<noteq> k r) rs)"

text \<open>\<open>Order("mod_id, stability, created_at desc")\<close>.\<close>

definition latest_le :: "Version \<Rightarrow> Version \<Rightarrow> bool" where
  "latest_le a b \<longleftrightarrow>
     ModID a < ModID b \<or>
     (ModID a = ModID b \<and>
       (Stability a < Stability b \<or> (Stability a = Stability b \<and> CreatedAt b \<le> CreatedAt a)))"

text \<open>\<open>Select(fields)\<close>: a column that is not selected keeps its zero value.\<close>

definition select_fields :: "string list \<Rightarrow> Version \<Rightarrow> Version" where
  "select_fields fs r =
     \<lparr> ID = (if ''id'' \<in> set fs then ID r else []),
       ModID = (if ''mod_id'' \<in> set fs then ModID r else []),
       Version = (if ''version'' \<in> set fs then Version r else []),
       Stability = (if ''stability'' \<in> set fs then Stability r else []),
       Approved = (if ''approved'' \<in> set fs then Approved r else False),
       Denied = (if ''denied'' \<in> set fs then Denied r else False),
       Downloads = (if ''downloads'' \<in> set fs then Downloads r else 0),
       CreatedAt = (if ''created_at'' \<in> set fs then CreatedAt r else 0),
       Key = (if ''key'' \<in> set fs then Key r else []) \<rparr>"

section \<open>Cache keys\<close>

definition key_GetVersionsByID :: "string list \<Rightarrow> string" where
  "key_GetVersionsByID versionIds = ''GetVersionsById_'' @ join '':'' versionIds"

definition key_GetModLatestVersions :: "string \<Rightarrow> bool \<Rightarrow> string" where
  "key_GetModLatestVersions modID unapproved =
     ''GetModLatestVersions_'' @ modID @ ''_'' @ sprint_bool unapproved"

definition key_GetModsLatestVersions :: "string list \<Rightarrow> bool \<Rightarrow> string" where
  "key_GetModsLatestVersions modIds unapproved =
     ''GetModsLatestVersions_'' @ join '':'' modIds @ ''_'' @ sprint_bool unapproved"

definition key_GetModVersions ::
  "string \<Rightarrow> int \<Rightarrow> int \<Rightarrow> string \<Rightarrow> string \<Rightarrow> bool \<Rightarrow> string" where
  "key_GetModVersions modID limit offset orderBy order unapproved =
     ''GetModVersions_'' @ modID @ ''_'' @ sprint_int limit @ ''_'' @ sprint_int offset @ ''_'' @
     orderBy @ ''_'' @ order @ ''_'' @ sprint_bool unapproved"

definition key_GetModVersionsNew :: "string \<Rightarrow> string \<Rightarrow> bool \<Rightarrow> string" where
  "key_GetModVersionsNew modID hash unapproved =
     ''GetModVersionsNew_'' @ modID @ ''_'' @ hash @ ''_'' @ sprint_bool unapproved"

definition key_GetModVersion :: "string \<Rightarrow> string \<Rightarrow> string" where
  "key_GetModVersion modID versionID = ''GetModVersion_'' @ modID @ ''_'' @ versionID"

definition key_GetModVersionByName :: "string \<Rightarrow> string \<Rightarrow> string" where
  "key_GetModVersionByName modID versionName =
     ''GetModVersionByName_'' @ modID @ ''_'' @ versionName"

definition key_GetVersion :: "string \<Rightarrow> string" where
  "key_GetVersion versionID = ''GetVersion_'' @ versionID"

definition key_GetVersionsNew :: "string \<Rightarrow> bool \<Rightarrow> string" where
  "key_GetVersionsNew hash unapproved = ''GetVersionsNew_'' @ hash @ ''_'' @ sprint_bool unapproved"

definition key_GetVersionCountNew :: "string \<Rightarrow> bool \<Rightarrow> string" where
  "key_GetVersionCountNew hash unapproved =
     ''GetVersionCountNew_'' @ hash @ ''_'' @ sprint_bool unapproved"

text \<open>
  A cached read, as the operation and the parameters its key is built from (for the
  filtered reads, the hash of the filter).
\<close>

datatype call =
    CallVersionsByID "string list"
  | CallModLatestVersions string bool
  | CallModsLatestVersions "string list" bool
  | CallModVersions string int int string string bool
  | CallModVersionsNew string string bool
  | CallModVersion string string
  | CallModVersionByName string string
  | CallVersion string
  | CallVersionsNew string bool
  | CallVersionCountNew string bool

fun call_key :: "call \<Rightarrow> string" where
  "call_key (CallVersionsByID ids) = key_GetVersionsByID ids"
| "call_key (CallModLatestVersions m u) = key_GetModLatestVersions m u"
| "call_key (CallModsLatestVersions ms u) = key_GetModsLatestVersions ms u"
| "call_key (CallModVersions m l off ob od u) = key_GetModVersions m l off ob od u"
| "call_key (CallModVersionsNew m h u) = key_GetModVersionsNew m h u"
| "call_key (CallModVersion m v) = key_GetModVersion m v"
| "call_key (CallModVersionByName m n) = key_GetModVersionByName m n"
| "call_key (CallVersion v) = key_GetVersion v"
| "call_key (CallVersionsNew h u) = key_GetVersionsNew h u"
| "call_key (CallVersionCountNew h u) = key_GetVersionCountNew h u"

text \<open>
  The name of the operation a key begins with, and the rest of the key: the parameters
  with their separators.
\<close>

fun op_name :: "call \<Rightarrow> string" where
  "op_name (CallVersionsByID ids) = ''GetVersionsById''"
| "op_name (CallModLatestVersions m u) = ''GetModLatestVersions''"
| "op_name (CallModsLatestVersions ms u) = ''GetModsLatestVersions''"
| "op_name (CallModVersions m l off ob od u) = ''GetModVersions''"
| "op_name (CallModVersionsNew m h u) = ''GetModVersionsNew''"
| "op_name (CallModVersion m v) = ''GetModVersion''"
| "op_name (CallModVersionByName m n) = ''GetModVersionByName''"
| "op_name (CallVersion v) = ''GetVersion''"
| "op_name (CallVersionsNew h u) = ''GetVersionsNew''"
| "op_name (CallVersionCountNew h u) = ''GetVersionCountNew''"

fun call_params :: "call \<Rightarrow> string" where
  "call_params (CallVersionsByID ids) = join '':'' ids"
| "call_params (CallModLatestVersions m u) = m @ ''_'' @ sprint_bool u"
| "call_params (CallModsLatestVersions ms u) = join '':'' ms @ ''_'' @ sprint_bool u"
| "call_params (CallModVersions m l off ob od u) =
     m @ ''_'' @ sprint_int l @ ''_'' @ sprint_int off @ ''_'' @ ob @ ''_'' @ od @ ''_'' @ sprint_bool u"
| "call_params (CallModVersionsNew m h u) = m @ ''_'' @ h @ ''_'' @ sprint_bool u"
| "call_params (CallModVersion m v) = m @ ''_'' @ v"
| "call_params (CallModVersionByName m n) = m @ ''_'' @ n"
| "call_params (CallVersion v) = v"
| "call_params (CallVersionsNew h u) = h @ ''_'' @ sprint_bool u"
| "call_params (CallVersionCountNew h u) = h @ ''_'' @ sprint_bool u"

text \<open>
  The parameters on which the separators are unambiguous: the mod id that leads a key
  and the order direction hold no \<open>_\<close>, and an id of an id list is not empty and holds
  no \<open>:\<close>. The other parameters are free.
\<close>

definition plain :: "string \<Rightarrow> bool" where
  "plain x \<longleftrightarrow> CHR ''_'' \<notin> set x"

definition plain_id :: "string \<Rightarrow> bool" where
  "plain_id x \<longleftrightarrow> x \<noteq> [] \<and> CHR '':'' \<notin> set x"

fun plain_call :: "call \<Rightarrow> bool" where
  "plain_call (CallVersionsByID ids) = list_all plain_id ids"
| "plain_call (CallModLatestVersions m u) = True"
| "plain_call (CallModsLatestVersions ms u) = list_all plain_id ms"
| "plain_call (CallModVersions m l off ob od u) = (plain m \<and> plain od)"
| "plain_call (CallModVersionsNew m h u) = plain m"
| "plain_call (CallModVersion m v) = plain m"
| "plain_call (CallModVersionByName m n) = plain m"
| "plain_call (CallVersion v) = True"
| "plain_call (CallVersionsNew h u) = True"
| "plain_call (CallVersionCountNew h u) = True"

section \<open>Store queries of the catalog operations\<close>

definition find_by_ids :: "string list \<Rightarrow> Version list \<Rightarrow> Version list" where
  "find_by_ids versionIds tbl = filter (\<lambda>r. ID r \<in> set versionIds) tbl"

definition find_latest :: "(Version \<Rightarrow> bool) \<Rightarrow> bool \<Rightarrow> Version list \<Rightarrow> Version list" where
  "find_latest of_mod unapproved tbl =
     distinct_on (\<lambda>r. (ModID r, Stability r))
       (sort_by latest_le (filter (\<lambda>r. of_mod r \<and> visible unapproved r) tbl))"

definition find_mod_versions ::
  "env \<Rightarrow> string \<Rightarrow> int \<Rightarrow> int \<Rightarrow> string \<Rightarrow> string \<Rightarrow> bool \<Rightarrow> Version list \<Rightarrow> Version list" where
  "find_mod_versions E modID limit offset orderBy order unapproved tbl =
     limit_rows limit (offset_rows offset
       (sort_by (row_le E (orderBy @ '' '' @ order))
         (filter (\<lambda>r. visible unapproved r \<and> ModID r = modID) tbl)))"

definition find_mod_versions_new ::
  "env \<Rightarrow> string \<Rightarrow> VersionFilter option \<Rightarrow> bool \<Rightarrow> Version list \<Rightarrow> Version list" where
  "find_mod_versions_new E modID vfilter unapproved tbl =
     (let rows = List.filter (\<lambda>r. visible unapproved r \<and> ModID r = modID) tbl in
      case vfilter of
        None \<Rightarrow> rows
      | Some f \<Rightarrow>
          limit_rows (Limit f) (offset_rows (Offset f)
            (sort_by (row_le E (OrderBy f @ '' '' @ Order f)) rows)))"

definition find_versions ::
  "env \<Rightarrow> int \<Rightarrow> int \<Rightarrow> string \<Rightarrow> string \<Rightarrow> string \<Rightarrow> bool \<Rightarrow> Version list \<Rightarrow> Version list" where
  "find_versions E limit offset orderBy order search unapproved tbl =
     limit_rows limit (offset_rows offset
       (sort_by (row_le E (orderBy @ '' '' @ order))
         (filter (\<lambda>r. visible unapproved r \<and> (search \<noteq> [] \<longrightarrow> search_match E search r)) tbl)))"

definition filter_search :: "VersionFilter \<Rightarrow> string option" where
  "filter_search f = (case Search f of None \<Rightarrow> None | Some q \<Rightarrow> if q \<noteq> [] then Some q else None)"

definition find_versions_new ::
  "env \<Rightarrow> VersionFilter option \<Rightarrow> bool \<Rightarrow> Version list \<Rightarrow> Version list" where
  "find_versions_new E vfilter unapproved tbl =
     (case vfilter of
        None \<Rightarrow> List.filter (visible unapproved) tbl
      | Some f \<Rightarrow>
          (let rows = List.filter (\<lambda>r. visible unapproved r \<and>
                        (case filter_search f of None \<Rightarrow> True | Some q \<Rightarrow> search_match E q r)) tbl;
               page = limit_rows (Limit f) (offset_rows (Offset f)
                        (sort_by (row_le E (OrderBy f @ '' '' @ Order f)) rows))
           in if Fields f \<noteq> [] then map (select_fields (Fields f)) page else page))"

definition count_versions :: "env \<Rightarrow> string \<Rightarrow> bool \<Rightarrow> Version list \<Rightarrow> int" where
  "count_versions E search unapproved tbl =
     int (length (filter (\<lambda>r. visible unapproved r \<and> (search \<noteq> [] \<longrightarrow> search_match E search r)) tbl))"

definition count_versions_new :: "env \<Rightarrow> VersionFilter option \<Rightarrow> bool \<Rightarrow> Version list \<Rightarrow> int" where
  "count_versions_new E vfilter unapproved tbl =
     int (length (List.filter (\<lambda>r. visible unapproved r \<and>
        (case vfilter of None \<Rightarrow> True
         | Some f \<Rightarrow> (case filter_search f of None \<Rightarrow> True | Some q \<Rightarrow> search_match E q r))) tbl))"

section \<open>The catalog operations\<close>

text \<open>
  Every operation takes the state and returns its result with the state it leaves,
  or panics (a failed type assertion on a cached value).
\<close>

definition cache_set :: "string \<Rightarrow> cval \<Rightarrow> state \<Rightarrow> state" where
  "cache_set k c s = s\<lparr>dbCache := (dbCache s)(k \<mapsto> c)\<rparr>"

definition GetVersionsByID :: "string list \<Rightarrow> state \<Rightarrow> (Version list option \<times> state) outcome" where
  "GetVersionsByID versionIds s =
     (let cacheKey = key_GetVersionsByID versionIds in
      case dbCache s cacheKey of
        Some c \<Rightarrow> (case c of CVersions versions \<Rightarrow> Return (Some versions, s) | _ \<Rightarrow> Panic)
      | None \<Rightarrow>
          (let versions = find_by_ids versionIds (versions_tbl s) in
           if length versionIds \<noteq> length versions then Return (None, s)
           else Return (Some versions, cache_set cacheKey (CVersions versions) s)))"

definition GetModLatestVersions :: "string \<Rightarrow> bool \<Rightarrow> state \<Rightarrow> (Version list \<times> state) outcome" where
  "GetModLatestVersions modID unapproved s =
     (let cacheKey = key_GetModLatestVersions modID unapproved in
      case dbCache s cacheKey of
        Some c \<Rightarrow> (case c of CVersionsPtr versions \<Rightarrow> Return (versions, s) | _ \<Rightarrow> Panic)
      | None \<Rightarrow>
          (let versions = find_latest (\<lambda>r. ModID r = modID) unapproved (versions_tbl s) in
           Return (versions, cache_set cacheKey (CVersionsPtr versions) s)))"

definition GetModsLatestVersions ::
  "string list \<Rightarrow> bool \<Rightarrow> state \<Rightarrow> (Version list \<times> state) outcome" where
  "GetModsLatestVersions modIds unapproved s =
     (let cacheKey = key_GetModsLatestVersions modIds unapproved in
      case dbCache s cacheKey of
        Some c \<Rightarrow> (case c of CVersionsPtr versions \<Rightarrow> Return (versions, s) | _ \<Rightarrow> Panic)
      | None \<Rightarrow>
          (let versions = find_latest (\<lambda>r. ModID r \<in> set modIds) unapproved (versions_tbl s) in
           Return (versions, cache_set cacheKey (CVersionsPtr versions) s)))"

definition GetModVersions ::
  "env \<Rightarrow> string \<Rightarrow> int \<Rightarrow> int \<Rightarrow> string \<Rightarrow> string \<Rightarrow> bool \<Rightarrow> state \<Rightarrow>
   (Version list \<times> state) outcome" where
  "GetModVersions E modID limit offset orderBy order unapproved s =
     (let cacheKey = key_GetModVersions modID limit offset orderBy order unapproved in
      case dbCache s cacheKey of
        Some c \<Rightarrow> (case c of CVersions versions \<Rightarrow> Return (versions, s) | _ \<Rightarrow> Panic)
      | None \<Rightarrow>
          (let versions =
                 find_mod_versions E modID limit offset orderBy order unapproved (versions_tbl s) in
           Return (versions, cache_set cacheKey (CVersions versions) s)))"

text \<open>
  The filtered reads: when the hash fails, \<open>cacheKey\<close> stays empty, the cache is not
  looked at, and nothing is stored.
\<close>

definition GetModVersionsNew ::
  "env \<Rightarrow> string \<Rightarrow> VersionFilter option \<Rightarrow> bool \<Rightarrow> state \<Rightarrow> (Version list \<times> state) outcome" where
  "GetModVersionsNew E modID vfilter unapproved s =
     (let cacheKey = (case Hash E vfilter of
                        Inr hash \<Rightarrow> key_GetModVersionsNew modID hash unapproved
                      | Inl err \<Rightarrow> []) in
      case (case Hash E vfilter of Inr hash \<Rightarrow> dbCache s cacheKey | Inl err \<Rightarrow> None) of
        Some c \<Rightarrow> (case c of CVersions versions \<Rightarrow> Return (versions, s) | _ \<Rightarrow> Panic)
      | None \<Rightarrow>
          (let versions = find_mod_versions_new E modID vfilter unapproved (versions_tbl s) in
           Return (versions,
             if cacheKey \<noteq> [] then cache_set cacheKey (CVersions versions) s else s)))"

text \<open>
  The three single-row reads share one body: a cached pointer is returned as it is;
  otherwise \<open>First\<close> fills \<open>version\<close>, which keeps an empty \<open>ID\<close> when no row
  matches, and only a row that was found is cached.
\<close>

definition find_one :: "(Version \<Rightarrow> bool) \<Rightarrow> string \<Rightarrow> state \<Rightarrow> (Version option \<times> state) outcome" where
  "find_one P cacheKey s =
     (case dbCache s cacheKey of
        Some c \<Rightarrow> (case c of CVersionPtr version \<Rightarrow> Return (Some version, s) | _ \<Rightarrow> Panic)
      | None \<Rightarrow>
          (case first_row P (versions_tbl s) of
             None \<Rightarrow> Return (None, s)
           | Some version \<Rightarrow>
               if ID version = [] then Return (None, s)
               else Return (Some version, cache_set cacheKey (CVersionPtr version) s)))"

definition GetModVersion :: "string \<Rightarrow> string \<Rightarrow> state \<Rightarrow> (Version option \<times> state) outcome" where
  "GetModVersion modID versionID s =
     find_one (\<lambda>r. ModID r = modID \<and> ID r = versionID) (key_GetModVersion modID versionID) s"

definition GetModVersionByName ::
  "string \<Rightarrow> string \<Rightarrow> state \<Rightarrow> (Version option \<times> state) outcome" where
  "GetModVersionByName modID versionName s =
     find_one (\<lambda>r. ModID r = modID \<and> Version r = versionName)
       (key_GetModVersionByName modID versionName) s"

definition GetVersion :: "string \<Rightarrow> state \<Rightarrow> (Version option \<times> state) outcome" where
  "GetVersion versionID s = find_one (\<lambda>r. ID r = versionID) (key_GetVersion versionID) s"

definition GetVersions ::
  "env \<Rightarrow> int \<Rightarrow> int \<Rightarrow> string \<Rightarrow> string \<Rightarrow> string \<Rightarrow> bool \<Rightarrow> state \<Rightarrow>
   (Version list \<times> state) outcome" where
  "GetVersions E limit offset orderBy order search unapproved s =
     Return (find_versions E limit offset orderBy order search unapproved (versions_tbl s), s)"

definition GetVersionsNew ::
  "env \<Rightarrow> VersionFilter option \<Rightarrow> bool \<Rightarrow> state \<Rightarrow> (Version list \<times> state) outcome" where
  "GetVersionsNew E vfilter unapproved s =
     (let cacheKey = (case Hash E vfilter of
                        Inr hash \<Rightarrow> key_GetVersionsNew hash unapproved
                      | Inl err \<Rightarrow> []) in
      case (case Hash E vfilter of Inr hash \<Rightarrow> dbCache s cacheKey | Inl err \<Rightarrow> None) of
        Some c \<Rightarrow> (case c of CVersions versions \<Rightarrow> Return (versions, s) | _ \<Rightarrow> Panic)
      | None \<Rightarrow>
          (let versions = find_versions_new E vfilter unapproved (versions_tbl s) in
           Return (versions,
             if cacheKey \<noteq> [] then cache_set cacheKey (CVersions versions) s else s)))"

definition GetVersionCount :: "env \<Rightarrow> string \<Rightarrow> bool \<Rightarrow> state \<Rightarrow> (int \<times> state) outcome" where
  "GetVersionCount E search unapproved s =
     Return (count_versions E search unapproved (versions_tbl s), s)"

definition GetVersionCountNew ::
  "env \<Rightarrow> VersionFilter option \<Rightarrow> bool \<Rightarrow> state \<Rightarrow> (int \<times> state) outcome" where
  "GetVersionCountNew E vfilter unapproved s =
     (let cacheKey = (case Hash E vfilter of
                        Inr hash \<Rightarrow> key_GetVersionCountNew hash unapproved
                      | Inl err \<Rightarrow> []) in
      case (case Hash E vfilter of Inr hash \<Rightarrow> dbCache s cacheKey | Inl err \<Rightarrow> None) of
        Some c \<Rightarrow> (case c of CCount versionCount \<Rightarrow> Return (versionCount, s) | _ \<Rightarrow> Panic)
      | None \<Rightarrow>
          (let versionCount = count_versions_new E vfilter unapproved (versions_tbl s) in
           Return (versionCount,
             if cacheKey \<noteq> [] then cache_set cacheKey (CCount versionCount) s else s)))"

definition GetVersionDependencies ::
  "string \<Rightarrow> state \<Rightarrow> (VersionDependency list \<times> state) outcome" where
  "GetVersionDependencies versionID s =
     Return (filter (\<lambda>d. VersionID d = versionID) (deps_tbl s), s)"

section \<open>Creation and the rolling window\<close>

definition second :: time where "second = 1000000000"
definition minute :: time where "minute = 60 * second"
definition hour :: time where "hour = 60 * minute"

text \<open>
  \<open>Duration.Minutes()\<close> printed with \<open>%.0f\<close>: the nearest whole number of minutes, a tie
  going to the even one. The quotient is taken exactly here, where the code goes through a
  \<open>float64\<close>; a negative duration that rounds to zero prints as \<open>-0\<close>.
\<close>

definition round_minutes :: "time \<Rightarrow> int" where
  "round_minutes d =
     (let q = d div minute; r = d mod minute in
      if 2 * r < minute then q
      else if 2 * r > minute then q + 1
      else if even q then q else q + 1)"

definition fmt_minutes :: "time \<Rightarrow> string" where
  "fmt_minutes d =
     (if d < 0 \<and> round_minutes d = 0 then ''-0'' else sprint_int (round_minutes d))"

definition err_duplicate :: string where
  "err_duplicate = ''this mod already has a version with this name''"

definition err_rate_limit :: "time \<Rightarrow> string" where
  "err_rate_limit timeToWait =
     ''please wait '' @ fmt_minutes timeToWait @ '' minutes to post another version''"

text \<open>
  The versions of a mod that the quota counts at the instant \<open>now\<close>:
  \<open>Order("created_at asc").Find(&versions, "mod_id = ? AND created_at > ?", ...)\<close>.
\<close>

definition recent_versions :: "string \<Rightarrow> time \<Rightarrow> Version list \<Rightarrow> Version list" where
  "recent_versions modID now tbl =
     sort_by (\<lambda>a b. CreatedAt a \<le> CreatedAt b)
       (filter (\<lambda>r. ModID r = modID \<and> CreatedAt r > now + hour * 24 * (- 1)) tbl)"

text \<open>
  \<open>CreateVersion\<close> reads the clock twice: \<open>now\<close> for the window, and \<open>later\<close> either in
  \<open>time.Until\<close> or when the row is written (the store stamps \<open>CreatedAt\<close> then). \<open>newID\<close>
  is what \<open>util.GenerateUniqueID()\<close> returns. The result is the error, if any.
\<close>

definition CreateVersion ::
  "Version \<Rightarrow> string \<Rightarrow> time \<Rightarrow> time \<Rightarrow> state \<Rightarrow> string option \<times> state" where
  "CreateVersion version newID now later s =
     (let versionCount =
            int (length (filter (\<lambda>r. ModID r = ModID version \<and> Version r = Version version)
                   (versions_tbl s))) in
      if versionCount > 0 then (Some err_duplicate, s)
      else
        (let versions = recent_versions (ModID version) now (versions_tbl s) in
         if length versions \<ge> 5 then
           (let timeToWait = CreatedAt (versions ! 0) + hour * 24 - later in
            (Some (err_rate_limit timeToWait), s))
         else
           (None, s\<lparr>versions_tbl :=
                      versions_tbl s @ [version\<lparr>ID := newID, CreatedAt := later\<rparr>]\<rparr>)))"

section \<open>Downloads\<close>

text \<open>\<open>Model(version).Update("downloads", version.Downloads+1)\<close>: the row of that id.\<close>

definition IncrementVersionDownloads :: "Version \<Rightarrow> state \<Rightarrow> state" where
  "IncrementVersionDownloads version s =
     s\<lparr>versions_tbl :=
         map (\<lambda>r. if ID r = ID version then r\<lparr>Downloads := Downloads version + 1\<rparr> else r)
           (versions_tbl s)\<rparr>"

text \<open>
  Modelled from the spec: \<open>redis.CanIncrement\<close>, which is not among the files at hand.
  Its contract is the short-window limiter's: admit a key at most once per window. A key
  that was admitted stays closed until its window has passed; an open key is admitted
  and closed for \<open>window\<close> from \<open>now\<close> on.
\<close>

definition CanIncrement ::
  "((string \<times> string \<times> string) \<rightharpoonup> time) \<Rightarrow> string \<Rightarrow> string \<Rightarrow> string \<Rightarrow> time \<Rightarrow> time \<Rightarrow>
   bool \<times> ((string \<times> string \<times> string) \<rightharpoonup> time)" where
  "CanIncrement lim ip action object window now =
     (case lim (ip, action, object) of
        None \<Rightarrow> (True, lim((ip, action, object) \<mapsto> now + window))
      | Some until \<Rightarrow>
          if now < until then (False, lim)
          else (True, lim((ip, action, object) \<mapsto> now + window)))"

datatype response = String int string | Redirect int string

definition downloadVersion ::
  "env \<Rightarrow> string \<Rightarrow> string \<Rightarrow> time \<Rightarrow> state \<Rightarrow> (response \<times> state) outcome" where
  "downloadVersion E realIP versionID now s =
     (case GetVersion versionID s of
        Panic \<Rightarrow> Panic
      | Return (None, s1) \<Rightarrow> Return (String 404 ''version not found'', s1)
      | Return (Some version, s1) \<Rightarrow>
          (let (ok, lim) =
                 CanIncrement (limiter s1) realIP ''download'' (''version:'' @ versionID)
                   (hour * 4) now;
               s2 = s1\<lparr>limiter := lim\<rparr>;
               s3 = (if ok then IncrementVersionDownloads version s2 else s2)
           in Return (Redirect 302 (GenerateDownloadLink E (Key version)), s3)))"

section \<open>Sequences of operations\<close>

datatype op =
    OpGetVersionsByID "string list"
  | OpGetModLatestVersions string bool
  | OpGetModsLatestVersions "string list" bool
  | OpGetModVersions string int int string string bool
  | OpGetModVersionsNew string "VersionFilter option" bool
  | OpGetModVersion string string
  | OpGetModVersionByName string string
  | OpGetVersion string
  | OpGetVersions int int string string string bool
  | OpGetVersionsNew "VersionFilter option" bool
  | OpGetVersionCount string bool
  | OpGetVersionCountNew "VersionFilter option" bool
  | OpGetVersionDependencies string
  | OpCreateVersion Version string time time
  | OpDownloadVersion string string time
  | OpExpire string

definition state_after :: "state \<Rightarrow> ('a \<times> state) outcome \<Rightarrow> state" where
  "state_after s oc = (case oc of Panic \<Rightarrow> s | Return (x, s') \<Rightarrow> s')"

text \<open>
  The state an operation leaves. \<open>OpExpire\<close> is the cache dropping an entry whose time
  to live has passed.
\<close>

fun exec :: "env \<Rightarrow> op \<Rightarrow> state \<Rightarrow> state" where
  "exec E (OpGetVersionsByID ids) s = state_after s (GetVersionsByID ids s)"
| "exec E (OpGetModLatestVersions m u) s = state_after s (GetModLatestVersions m u s)"
| "exec E (OpGetModsLatestVersions ms u) s = state_after s (GetModsLatestVersions ms u s)"
| "exec E (OpGetModVersions m l off ob od u) s = state_after s (GetModVersions E m l off ob od u s)"
| "exec E (OpGetModVersionsNew m f u) s = state_after s (GetModVersionsNew E m f u s)"
| "exec E (OpGetModVersion m v) s = state_after s (GetModVersion m v s)"
| "exec E (OpGetModVersionByName m n) s = state_after s (GetModVersionByName m n s)"
| "exec E (OpGetVersion v) s = state_after s (GetVersion v s)"
| "exec E (OpGetVersions l off ob od q u) s = state_after s (GetVersions E l off ob od q u s)"
| "exec E (OpGetVersionsNew f u) s = state_after s (GetVersionsNew E f u s)"
| "exec E (OpGetVersionCount q u) s = state_after s (GetVersionCount E q u s)"
| "exec E (OpGetVersionCountNew f u) s = state_after s (GetVersionCountNew E f u s)"
| "exec E (OpGetVersionDependencies v) s = state_after s (GetVersionDependencies v s)"
| "exec E (OpCreateVersion v newID now later) s = snd (CreateVersion v newID now later s)"
| "exec E (OpDownloadVersion ip v now) s = state_after s (downloadVersion E ip v now s)"
| "exec E (OpExpire k) s = s\<lparr>dbCache := (dbCache s)(k := None)\<rparr>"

text \<open>The id generator hands out an id that no stored version has.\<close>

fun admissible :: "op \<Rightarrow> state \<Rightarrow> bool" where
  "admissible (OpCreateVersion v newID now later) s = (newID \<notin> ID ` set (versions_tbl s))"
| "admissible _ s = True"

text \<open>
  The states the service can be in: it starts with an empty cache on a store whose
  ids are distinct, and runs admissible operations.
\<close>

inductive reachable :: "env \<Rightarrow> state \<Rightarrow> bool" for E :: env where
  start: "distinct (map ID tbl) \<Longrightarrow>
          reachable E \<lparr>versions_tbl = tbl, deps_tbl = deps, dbCache = Map.empty, limiter = lim\<rparr>"
| step: "reachable E s \<Longrightarrow> admissible oper s \<Longrightarrow> reachable E (exec E oper s)"


section \<open>Notions of the specification\<close>

text \<open>
  The trailing 24-hour window ending at \<open>now\<close>, as the specification words it, to be
  compared with the query of \<open>CreateVersion\<close>.
\<close>

definition in_window :: "string \<Rightarrow> time \<Rightarrow> Version \<Rightarrow> bool" where
  "in_window modID now r \<longleftrightarrow>
     ModID r = modID \<and> now - hour * 24 < CreatedAt r \<and> CreatedAt r \<le> now"

text \<open>A version with the same parent and the same version string is stored already.\<close>

definition duplicate_name :: "Version \<Rightarrow> Version list \<Rightarrow> bool" where
  "duplicate_name version tbl \<longleftrightarrow>
     (\<exists>r\<in>set tbl. ModID r = ModID version \<and> Version r = Version version)"

text \<open>
  The read-through protocol of the specification's cache (\<open>GetOrCompute\<close>): a cached value
  under the key is returned as it is, with the state untouched (a value of the wrong dynamic
  type makes the type assertion panic); on a miss the value is computed from the
  \<open>versions\<close> table, stored under the key when it is cacheable, and returned.
\<close>

definition read_through ::
  "(state \<Rightarrow> ('a \<times> state) outcome) \<Rightarrow> string \<Rightarrow> (cval \<Rightarrow> 'a option) \<Rightarrow> ('a \<Rightarrow> cval) \<Rightarrow>
   ('a \<Rightarrow> bool) \<Rightarrow> (Version list \<Rightarrow> 'a) \<Rightarrow> bool" where
  "read_through f k unwrap wrap cacheable compute \<longleftrightarrow>
     (\<forall>s. f s =
        (case dbCache s k of
           Some c \<Rightarrow> (case unwrap c of Some x \<Rightarrow> Return (x, s) | None \<Rightarrow> Panic)
         | None \<Rightarrow>
             (let x = compute (versions_tbl s) in
              Return (x, if cacheable x then cache_set k (wrap x) s else s))))"

text \<open>An operation that never looks at the cache and never writes to it.\<close>

definition always_fresh ::
  "(state \<Rightarrow> ('a \<times> state) outcome) \<Rightarrow> (Version list \<Rightarrow> VersionDependency list \<Rightarrow> 'a) \<Rightarrow> bool" where
  "always_fresh f compute \<longleftrightarrow> (\<forall>s. f s = Return (compute (versions_tbl s) (deps_tbl s), s))"

text \<open>The type assertions of the cached reads.\<close>

definition the_versions :: "cval \<Rightarrow> Version list option" where
  "the_versions c = (case c of CVersions versions \<Rightarrow> Some versions | _ \<Rightarrow> None)"

definition the_versions_ptr :: "cval \<Rightarrow> Version list option" where
  "the_versions_ptr c = (case c of CVersionsPtr versions \<Rightarrow> Some versions | _ \<Rightarrow> None)"

definition the_version_ptr :: "cval \<Rightarrow> Version option option" where
  "the_version_ptr c = (case c of CVersionPtr version \<Rightarrow> Some (Some version) | _ \<Rightarrow> None)"

definition the_count :: "cval \<Rightarrow> int option" where
  "the_count c = (case c of CCount n \<Rightarrow> Some n | _ \<Rightarrow> None)"

definition the_versions_opt :: "cval \<Rightarrow> Version list option option" where
  "the_versions_opt c = (case c of CVersions versions \<Rightarrow> Some (Some versions) | _ \<Rightarrow> None)"

text \<open>What the single-row reads and the list-by-ids read compute from the table.\<close>

definition found_row :: "(Version \<Rightarrow> bool) \<Rightarrow> Version list \<Rightarrow> Version option" where
  "found_row P tbl =
     (case first_row P tbl of None \<Rightarrow> None
      | Some version \<Rightarrow> if ID version = [] then None else Some version)"

definition all_or_nothing :: "string list \<Rightarrow> Version list \<Rightarrow> Version list option" where
  "all_or_nothing versionIds tbl =
     (if length versionIds \<noteq> length (find_by_ids versionIds tbl) then None
      else Some (find_by_ids versionIds tbl))"

text \<open>A list of rows that matches a list of ids one for one.\<close>

definition one_for_one :: "string list \<Rightarrow> Version list \<Rightarrow> bool" where
  "one_for_one versionIds versions \<longleftrightarrow>
     length versions = length versionIds \<and> distinct versionIds \<and>
     ID ` set versions = set versionIds"

text \<open>
  What a cache entry may hold, by the key it is stored under: under the key of
  \<open>GetVersion\<close> a version of that id whose counter is at most one behind the stored
  row's, under a key of \<open>GetVersionsByID\<close> a list that matches one for one a list of
  stored ids with that key, and under the keys of the list operations rows that pass the visibility
  predicate of the flag in the key. A state is consistent when the ids of the table are
  distinct and every cache entry is of this kind.
\<close>

definition entry_ok :: "Version list \<Rightarrow> string \<Rightarrow> cval \<Rightarrow> bool" where
  "entry_ok tbl k c \<longleftrightarrow>
     (\<forall>versionID. k = key_GetVersion versionID \<longrightarrow>
        (\<exists>v. c = CVersionPtr v \<and> ID v = versionID \<and>
           (\<exists>r\<in>set tbl. ID r = versionID \<and> Downloads r \<le> Downloads v + 1))) \<and>
     (\<forall>ids. k = key_GetVersionsByID ids \<longrightarrow>
        (\<exists>vs ids'. c = CVersions vs \<and> key_GetVersionsByID ids' = k \<and> one_for_one ids' vs \<and>
           set ids' \<subseteq> ID ` set tbl)) \<and>
     (\<forall>m u. k = key_GetModLatestVersions m u \<longrightarrow>
        (\<exists>vs. c = CVersionsPtr vs \<and> list_all (visible u) vs)) \<and>
     (\<forall>ms u. k = key_GetModsLatestVersions ms u \<longrightarrow>
        (\<exists>vs. c = CVersionsPtr vs \<and> list_all (visible u) vs)) \<and>
     (\<forall>m l off ob od u. k = key_GetModVersions m l off ob od u \<longrightarrow>
        (\<exists>vs. c = CVersions vs \<and> list_all (visible u) vs)) \<and>
     (\<forall>m h u. k = key_GetModVersionsNew m h u \<longrightarrow>
        (\<exists>vs. c = CVersions vs \<and> list_all (visible u) vs))"

definition cache_ok :: "state \<Rightarrow> bool" where
  "cache_ok s \<longleftrightarrow>
     distinct (map ID (versions_tbl s)) \<and>
     (\<forall>k c. dbCache s k = Some c \<longrightarrow> entry_ok (versions_tbl s) k c)"

section \<open>Example data\<close>

definition ex_row ::
  "string \<Rightarrow> string \<Rightarrow> string \<Rightarrow> bool \<Rightarrow> bool \<Rightarrow> nat \<Rightarrow> time \<Rightarrow> Version" where
  "ex_row i m v a d n t =
     \<lparr>ID = i, ModID = m, Version = v, Stability = ''release'', Approved = a, Denied = d,
      Downloads = n, CreatedAt = t, Key = ''objects/'' @ i\<rparr>"

definition ex_state :: "Version list \<Rightarrow> state" where
  "ex_state tbl = \<lparr>versions_tbl = tbl, deps_tbl = [], dbCache = Map.empty, limiter = Map.empty\<rparr>"

definition ex_tbl :: "Version list" where
  "ex_tbl =
     [ex_row ''v1'' ''P'' ''1.0.0'' True False 3 (80 * hour),
      ex_row ''v2'' ''P'' ''1.0.1'' False False 0 (78 * hour),
      ex_row ''v3'' ''P'' ''1.0.2'' False True 0 (90 * hour),
      ex_row ''v4'' ''P'' ''1.0.3'' True False 0 (77 * hour + 30 * minute),
      ex_row ''v5'' ''P'' ''1.0.4'' True False 0 (99 * hour),
      ex_row ''v6'' ''P'' ''0.9.1'' True False 0 (100 * hour - hour * 24 + second),
      ex_row ''v0'' ''P'' ''0.9.0'' True False 0 (100 * hour - hour * 24 - second),
      ex_row ''w1'' ''Q'' ''1.0.0'' True False 7 (95 * hour)]"

definition ex_draft :: "string \<Rightarrow> string \<Rightarrow> Version" where
  "ex_draft m v = ex_row [] m v False False 0 0"

definition ex_env :: env where
  "ex_env = \<lparr>row_le = (\<lambda>clause a b. ID a \<le> ID b), ts_match = (\<lambda>q v. q = v),
            Hash = (\<lambda>f. case f of None \<Rightarrow> Inr ''nil''
                        | Some x \<Rightarrow> if Limit x < 0 then Inl ''cannot hash'' else Inr (OrderBy x)),
            GenerateDownloadLink = (\<lambda>k. ''https://blobs.example/'' @ k)\<rparr>"

definition ex_filter :: "int \<Rightarrow> VersionFilter" where
  "ex_filter l = \<lparr>Limit = l, Offset = 0, OrderBy = ''id'', Order = ''asc'', Search = None, Fields = []\<rparr>"

definition ex_small :: "Version list" where
  "ex_small = [ex_row ''v1'' ''P'' ''1.0.0'' True False 3 (80 * hour),
               ex_row ''w1'' ''Q'' ''1.0.0'' True False 7 (95 * hour)]"

definition ex_after_download :: state where
  "ex_after_download =
     \<lparr>versions_tbl = [ex_row ''v1'' ''P'' ''1.0.0'' True False 4 (80 * hour),
                      ex_row ''w1'' ''Q'' ''1.0.0'' True False 7 (95 * hour)],
      deps_tbl = [],
      dbCache = [''GetVersion_v1'' \<mapsto> CVersionPtr (ex_row ''v1'' ''P'' ''1.0.0'' True False 3 (80 * hour))],
      limiter = [(''10.0.0.1'', ''download'', ''version:v1'') \<mapsto> 104 * hour]\<rparr>"

definition ex_public :: "Version list" where
  "ex_public =
     [ex_row ''v0'' ''P'' ''0.9.0'' True False 0 (100 * hour - hour * 24 - second),
      ex_row ''v1'' ''P'' ''1.0.0'' True False 3 (80 * hour),
      ex_row ''v4'' ''P'' ''1.0.3'' True False 0 (77 * hour + 30 * minute),
      ex_row ''v5'' ''P'' ''1.0.4'' True False 0 (99 * hour),
      ex_row ''v6'' ''P'' ''0.9.1'' True False 0 (100 * hour - hour * 24 + second)]"


definition ex_ids_cached :: state where
  "ex_ids_cached =
     cache_set ''GetVersionsById_'' (CVersions [])
       (cache_set ''GetVersionsById_v1:w1'' (CVersions ex_small) (ex_state ex_small))"

section \<open>Sorting and the window query\<close>

lemmas ex_defs = ex_tbl_def ex_row_def ex_state_def ex_draft_def hour_def minute_def second_def

lemma set_insert_by: "set (insert_by le x xs) = insert x (set xs)"
  by (induction xs) auto

lemma set_sort_by: "set (sort_by le xs) = set xs"
  by (induction xs) (auto simp: set_insert_by)

lemma length_insert_by: "length (insert_by le x xs) = Suc (length xs)"
  by (induction xs) auto

lemma length_sort_by: "length (sort_by le xs) = length xs"
  by (induction xs) (auto simp: length_insert_by)

lemma sorted_insert_by_key:
  "sorted (map k xs) \<Longrightarrow> sorted (map k (insert_by (\<lambda>a b. k a \<le> k b) x xs))"
  for k :: "'a \<Rightarrow> 'b::linorder"
  by (induction xs) (auto simp: set_insert_by)

lemma sorted_sort_by_key: "sorted (map k (sort_by (\<lambda>a b. k a \<le> k b) xs))"
  for k :: "'a \<Rightarrow> 'b::linorder"
  by (induction xs) (auto simp: sorted_insert_by_key)

lemma err_differ: "err_rate_limit d \<noteq> err_duplicate"
  by (simp add: err_rate_limit_def err_duplicate_def)

lemma recent_versions_set:
  "set (recent_versions p now tbl) = {r \<in> set tbl. ModID r = p \<and> now - hour * 24 < CreatedAt r}"
  by (auto simp: recent_versions_def set_sort_by)

lemma recent_versions_length:
  "length (recent_versions p now tbl) =
   length (filter (\<lambda>r. ModID r = p \<and> now - hour * 24 < CreatedAt r) tbl)"
  by (simp add: recent_versions_def length_sort_by)

lemma recent_versions_sorted: "sorted (map CreatedAt (recent_versions p now tbl))"
  unfolding recent_versions_def by (rule sorted_sort_by_key)

lemma recent_versions_cong:
  assumes "filter (\<lambda>r. ModID r = p \<and> now - hour * 24 < CreatedAt r) tbl' =
           filter (\<lambda>r. ModID r = p \<and> now - hour * 24 < CreatedAt r) tbl"
  shows "recent_versions p now tbl' = recent_versions p now tbl"
  using assms by (simp add: recent_versions_def)

lemma no_duplicate_filter:
  "\<not> (\<exists>r\<in>set tbl. ModID r = ModID version \<and> Version r = Version version) \<Longrightarrow>
   filter (\<lambda>r. ModID r = ModID version \<and> Version r = Version version) tbl = []"
  by (auto simp: filter_empty_conv)

lemma CreateVersion_rejects:
  assumes "\<not> (\<exists>r\<in>set (versions_tbl s). ModID r = ModID version \<and> Version r = Version version)"
    and "5 \<le> length (recent_versions (ModID version) now (versions_tbl s))"
  shows "CreateVersion version newID now later s =
         (Some (err_rate_limit
            (CreatedAt (recent_versions (ModID version) now (versions_tbl s) ! 0) + hour * 24 - later)), s)"
  using assms by (simp add: CreateVersion_def Let_def no_duplicate_filter)

lemma CreateVersion_admits:
  assumes "\<not> (\<exists>r\<in>set (versions_tbl s). ModID r = ModID version \<and> Version r = Version version)"
    and "length (recent_versions (ModID version) now (versions_tbl s)) \<le> 4"
  shows "CreateVersion version newID now later s =
         (None, s\<lparr>versions_tbl := versions_tbl s @ [version\<lparr>ID := newID, CreatedAt := later\<rparr>]\<rparr>)"
  using assms by (simp add: CreateVersion_def Let_def no_duplicate_filter)

lemma sorted_nth0_Min:
  fixes xs :: "int list"
  assumes "sorted xs" "xs \<noteq> []"
  shows "xs ! 0 = Min (set xs)"
proof -
  obtain y ys where xs: "xs = y # ys" using assms(2) by (cases xs) auto
  with assms(1) have "\<forall>z\<in>set ys. y \<le> z" by simp
  then have "Min (set (y # ys)) = y"
    by (intro Min_eqI) auto
  then show ?thesis by (simp add: xs)
qed

lemma recent_oldest:
  assumes "recent_versions p now tbl \<noteq> []"
  shows "CreatedAt (recent_versions p now tbl ! 0) =
         Min (CreatedAt ` {r \<in> set tbl. ModID r = p \<and> now - hour * 24 < CreatedAt r})"
proof -
  let ?xs = "map CreatedAt (recent_versions p now tbl)"
  have "?xs ! 0 = Min (set ?xs)"
    using assms by (intro sorted_nth0_Min recent_versions_sorted) simp
  moreover have "?xs ! 0 = CreatedAt (recent_versions p now tbl ! 0)"
    using assms by (simp add: nth_map)
  moreover have "set ?xs = CreatedAt ` {r \<in> set tbl. ModID r = p \<and> now - hour * 24 < CreatedAt r}"
    by (simp add: recent_versions_set)
  ultimately show ?thesis by simp
qed

lemma round_minutes_nearest: "2 * \<bar>round_minutes d * minute - d\<bar> \<le> minute"
proof -
  define q where "q = d div 60000000000"
  define r where "r = d mod 60000000000"
  have m: "minute = 60000000000" by (simp add: minute_def second_def)
  have d: "d = q * 60000000000 + r" by (simp add: q_def r_def)
  have r: "0 \<le> r" "r < 60000000000" by (simp_all add: r_def)
  have "round_minutes d = (if 2 * r < 60000000000 then q
      else if 2 * r > 60000000000 then q + 1 else if even q then q else q + 1)"
    by (simp add: round_minutes_def Let_def m q_def r_def)
  then show ?thesis
    unfolding m using r by (auto simp: d algebra_simps split: if_splits)
qed

lemma recent_in_window:
  assumes "\<forall>r\<in>set tbl. CreatedAt r \<le> now"
  shows "recent_versions p now tbl =
         sort_by (\<lambda>a b. CreatedAt a \<le> CreatedAt b) (filter (in_window p now) tbl)"
proof -
  have "filter (\<lambda>r. ModID r = p \<and> now - hour * 24 < CreatedAt r) tbl = filter (in_window p now) tbl"
    using assms by (intro filter_cong) (auto simp: in_window_def)
  then show ?thesis by (simp add: recent_versions_def)
qed

lemma recent_flags:
  "length (recent_versions p now (map (\<lambda>r. r\<lparr>Approved := a r, Denied := d r\<rparr>) tbl)) =
   length (recent_versions p now tbl)"
  by (simp add: recent_versions_length filter_map o_def)

section \<open>The creation quota\<close>

text \<open>
  C2. On a store whose creation times are not later than \<open>now\<close>, the versions
  \<open>CreateVersion\<close> counts are exactly the versions of the parent inside the trailing
  24-hour window ending at \<open>now\<close>, oldest first; the count is the same whatever the
  approval and denial flags are. When the name is not a duplicate, five or more counted
  versions reject the creation with the rate-limit error and leave the state as it was,
  and four or fewer admit it and append the row. A version created at \<open>now - 24h + 1s\<close>
  is counted, one created at \<open>now - 24h - 1s\<close> is not, and two stores with the same rows
  inside the window give the same answer.
\<close>

theorem C2_rolling_window:
  assumes past: "\<forall>r\<in>set (versions_tbl s). CreatedAt r \<le> now"
  shows "recent_versions (ModID version) now (versions_tbl s) =
           sort_by (\<lambda>a b. CreatedAt a \<le> CreatedAt b)
             (filter (in_window (ModID version) now) (versions_tbl s))
       \<and> length (recent_versions (ModID version) now
                   (map (\<lambda>r. r\<lparr>Approved := a r, Denied := d r\<rparr>) (versions_tbl s))) =
         length (filter (in_window (ModID version) now) (versions_tbl s))
       \<and> sorted (map CreatedAt (recent_versions (ModID version) now (versions_tbl s)))
       \<and> (\<not> duplicate_name version (versions_tbl s) \<and>
            5 \<le> length (filter (in_window (ModID version) now) (versions_tbl s)) \<longrightarrow>
            CreateVersion version newID now later s =
              (Some (err_rate_limit
                 (CreatedAt (recent_versions (ModID version) now (versions_tbl s) ! 0)
                    + hour * 24 - later)), s))
       \<and> (\<not> duplicate_name version (versions_tbl s) \<and>
            length (filter (in_window (ModID version) now) (versions_tbl s)) \<le> 4 \<longrightarrow>
            CreateVersion version newID now later s =
              (None, s\<lparr>versions_tbl :=
                         versions_tbl s @ [version\<lparr>ID := newID, CreatedAt := later\<rparr>]\<rparr>))
       \<and> (\<forall>r\<in>set (versions_tbl s). ModID r = ModID version \<longrightarrow>
            (CreatedAt r = now - hour * 24 + second \<longrightarrow>
               r \<in> set (recent_versions (ModID version) now (versions_tbl s))) \<and>
            (CreatedAt r = now - hour * 24 - second \<longrightarrow>
               r \<notin> set (recent_versions (ModID version) now (versions_tbl s))))
       \<and> (\<forall>s'. (\<forall>r\<in>set (versions_tbl s'). CreatedAt r \<le> now) \<and>
               filter (in_window (ModID version) now) (versions_tbl s') =
               filter (in_window (ModID version) now) (versions_tbl s) \<and>
               \<not> duplicate_name version (versions_tbl s') \<and>
               \<not> duplicate_name version (versions_tbl s) \<longrightarrow>
               fst (CreateVersion version newID now later s') =
               fst (CreateVersion version newID now later s))"
proof -
  let ?p = "ModID version" and ?tbl = "versions_tbl s"
  have eq: "recent_versions ?p now ?tbl =
        sort_by (\<lambda>a b. CreatedAt a \<le> CreatedAt b) (filter (in_window ?p now) ?tbl)"
    using past by (rule recent_in_window)
  have len: "length (recent_versions ?p now ?tbl) = length (filter (in_window ?p now) ?tbl)"
    by (simp add: eq length_sort_by)
  have flags: "length (recent_versions ?p now (map (\<lambda>r. r\<lparr>Approved := a r, Denied := d r\<rparr>) ?tbl)) =
      length (filter (in_window ?p now) ?tbl)"
    by (simp add: recent_flags len)
  have rej: "\<not> duplicate_name version ?tbl \<and> 5 \<le> length (filter (in_window ?p now) ?tbl) \<longrightarrow>
      CreateVersion version newID now later s =
        (Some (err_rate_limit (CreatedAt (recent_versions ?p now ?tbl ! 0) + hour * 24 - later)), s)"
    using CreateVersion_rejects [of s version now newID later]
    by (simp add: duplicate_name_def len)
  have adm: "\<not> duplicate_name version ?tbl \<and> length (filter (in_window ?p now) ?tbl) \<le> 4 \<longrightarrow>
      CreateVersion version newID now later s =
        (None, s\<lparr>versions_tbl := ?tbl @ [version\<lparr>ID := newID, CreatedAt := later\<rparr>]\<rparr>)"
    using CreateVersion_admits [of s version now newID later]
    by (simp add: duplicate_name_def len)
  have bnd: "\<forall>r\<in>set ?tbl. ModID r = ?p \<longrightarrow>
      (CreatedAt r = now - hour * 24 + second \<longrightarrow> r \<in> set (recent_versions ?p now ?tbl)) \<and>
      (CreatedAt r = now - hour * 24 - second \<longrightarrow> r \<notin> set (recent_versions ?p now ?tbl))"
    by (auto simp: recent_versions_set second_def)
  have dep: "\<forall>s'. (\<forall>r\<in>set (versions_tbl s'). CreatedAt r \<le> now) \<and>
      filter (in_window ?p now) (versions_tbl s') = filter (in_window ?p now) ?tbl \<and>
      \<not> duplicate_name version (versions_tbl s') \<and> \<not> duplicate_name version ?tbl \<longrightarrow>
      fst (CreateVersion version newID now later s') = fst (CreateVersion version newID now later s)"
  proof (intro allI impI)
    fix s' :: state
    assume h: "(\<forall>r\<in>set (versions_tbl s'). CreatedAt r \<le> now) \<and>
      filter (in_window ?p now) (versions_tbl s') = filter (in_window ?p now) ?tbl \<and>
      \<not> duplicate_name version (versions_tbl s') \<and> \<not> duplicate_name version ?tbl"
    then have "recent_versions ?p now (versions_tbl s') = recent_versions ?p now ?tbl"
      by (simp add: recent_in_window eq)
    with h show "fst (CreateVersion version newID now later s') =
        fst (CreateVersion version newID now later s)"
      by (simp add: CreateVersion_def Let_def duplicate_name_def no_duplicate_filter)
  qed
  from eq flags recent_versions_sorted rej adm bnd dep show ?thesis by blast
qed

theorem C2_rolling_window_witness:
  "list_all (\<lambda>r. CreatedAt r \<le> 100 * hour) (versions_tbl (ex_state ex_tbl)) \<and>
   length (filter (in_window ''P'' (100 * hour)) ex_tbl) = 6 \<and>
   fst (CreateVersion (ex_draft ''P'' ''1.0.5'') ''n1'' (100 * hour) (100 * hour + second)
          (ex_state ex_tbl)) = Some ''please wait 0 minutes to post another version'' \<and>
   ex_row ''v6'' ''P'' ''0.9.1'' True False 0 (100 * hour - hour * 24 + second)
     \<in> set (recent_versions ''P'' (100 * hour) ex_tbl) \<and>
   ex_row ''v0'' ''P'' ''0.9.0'' True False 0 (100 * hour - hour * 24 - second)
     \<notin> set (recent_versions ''P'' (100 * hour) ex_tbl) \<and>
   length (filter (in_window ''P'' (103 * hour)) ex_tbl) = 3 \<and>
   fst (CreateVersion (ex_draft ''P'' ''1.0.5'') ''n1'' (103 * hour) (103 * hour + second)
          (ex_state ex_tbl)) = None"
proof -
  let ?v = "ex_draft ''P'' ''1.0.5''" and ?s = "ex_state ex_tbl"
  have p: "ModID ?v = ''P''" "versions_tbl ?s = ex_tbl" by (simp_all add: ex_defs)
  have past_all: "list_all (\<lambda>r. CreatedAt r \<le> 100 * hour) (versions_tbl ?s)"
    by (simp add: ex_defs)
  then have past: "\<forall>r\<in>set (versions_tbl ?s). CreatedAt r \<le> 100 * hour"
    by (simp only: list_all_iff)
  have past': "\<forall>r\<in>set (versions_tbl ?s). CreatedAt r \<le> 103 * hour"
    by (simp add: ex_defs)
  have nodup: "\<not> duplicate_name ?v (versions_tbl ?s)"
    by (simp add: duplicate_name_def ex_defs)
  have six: "length (filter (in_window ''P'' (100 * hour)) ex_tbl) = 6"
    by (simp add: in_window_def ex_defs)
  have three: "length (filter (in_window ''P'' (103 * hour)) ex_tbl) = 3"
    by (simp add: in_window_def ex_defs)
  have v6: "ex_row ''v6'' ''P'' ''0.9.1'' True False 0 (100 * hour - hour * 24 + second) \<in> set ex_tbl"
    and v0: "ex_row ''v0'' ''P'' ''0.9.0'' True False 0 (100 * hour - hour * 24 - second) \<in> set ex_tbl"
    by (simp_all add: ex_tbl_def)
  note T = C2_rolling_window [OF past, where version = ?v and newID = "''n1''"
      and later = "100 * hour + second" and a = "\<lambda>r. True" and d = "\<lambda>r. False"]
  note T' = C2_rolling_window [OF past', where version = ?v and newID = "''n1''"
      and later = "103 * hour + second" and a = "\<lambda>r. True" and d = "\<lambda>r. False"]
  note rejT = T [THEN conjunct2, THEN conjunct2, THEN conjunct2, THEN conjunct1, THEN mp]
  note admT = T' [THEN conjunct2, THEN conjunct2, THEN conjunct2, THEN conjunct2, THEN conjunct1, THEN mp]
  note bndT = T [THEN conjunct2, THEN conjunct2, THEN conjunct2, THEN conjunct2, THEN conjunct2,
      THEN conjunct1, THEN bspec]
  have "CreateVersion ?v ''n1'' (100 * hour) (100 * hour + second) ?s =
      (Some (err_rate_limit (CreatedAt (recent_versions (ModID ?v) (100 * hour) (versions_tbl ?s) ! 0)
         + hour * 24 - (100 * hour + second))), ?s)"
    by (rule rejT) (use nodup six in \<open>simp add: p\<close>)
  moreover have "recent_versions ''P'' (100 * hour) ex_tbl ! 0 =
      ex_row ''v6'' ''P'' ''0.9.1'' True False 0 (100 * hour - hour * 24 + second)"
    by (simp add: recent_versions_def ex_defs)
  moreover have "err_rate_limit 0 = ''please wait 0 minutes to post another version''"
    by (simp add: err_rate_limit_def fmt_minutes_def round_minutes_def sprint_int_def
        sprint_nat.simps digit_char_def minute_def second_def)
  ultimately have rej: "fst (CreateVersion ?v ''n1'' (100 * hour) (100 * hour + second) ?s) =
      Some ''please wait 0 minutes to post another version''"
    by (simp add: p ex_row_def)
  have "CreateVersion ?v ''n1'' (103 * hour) (103 * hour + second) ?s =
      (None, ?s\<lparr>versions_tbl := versions_tbl ?s @ [?v\<lparr>ID := ''n1'', CreatedAt := 103 * hour + second\<rparr>]\<rparr>)"
    by (rule admT) (use nodup three in \<open>simp add: p\<close>)
  then have adm: "fst (CreateVersion ?v ''n1'' (103 * hour) (103 * hour + second) ?s) = None"
    by simp
  have in6: "ex_row ''v6'' ''P'' ''0.9.1'' True False 0 (100 * hour - hour * 24 + second)
      \<in> set (recent_versions ''P'' (100 * hour) ex_tbl)"
    using bndT [of "ex_row ''v6'' ''P'' ''0.9.1'' True False 0 (100 * hour - hour * 24 + second)"] v6
    by (simp add: p) (simp add: ex_row_def)
  have out0: "ex_row ''v0'' ''P'' ''0.9.0'' True False 0 (100 * hour - hour * 24 - second)
      \<notin> set (recent_versions ''P'' (100 * hour) ex_tbl)"
    using bndT [of "ex_row ''v0'' ''P'' ''0.9.0'' True False 0 (100 * hour - hour * 24 - second)"] v0
    by (simp add: p) (simp add: ex_row_def)
  from past_all six rej in6 out0 three adm show ?thesis by blast
qed

text \<open>
  C3. When a version with the same parent and version string is stored, \<open>CreateVersion\<close>
  fails with the duplicate error and changes nothing, whatever the window holds: the
  check comes before the quota. When the version string is stored under other parents
  only, the duplicate error is not returned.
\<close>

theorem C3_duplicate_before_quota:
  "(duplicate_name version (versions_tbl s) \<longrightarrow>
      CreateVersion version newID now later s = (Some err_duplicate, s)) \<and>
   (\<not> duplicate_name version (versions_tbl s) \<longrightarrow>
      fst (CreateVersion version newID now later s) \<noteq> Some err_duplicate) \<and>
   ((\<forall>r\<in>set (versions_tbl s). Version r = Version version \<longrightarrow> ModID r \<noteq> ModID version) \<longrightarrow>
      fst (CreateVersion version newID now later s) \<noteq> Some err_duplicate)"
proof (intro conjI impI)
  assume "duplicate_name version (versions_tbl s)"
  then have "filter (\<lambda>r. ModID r = ModID version \<and> Version r = Version version) (versions_tbl s) \<noteq> []"
    by (auto simp: filter_empty_conv duplicate_name_def)
  then show "CreateVersion version newID now later s = (Some err_duplicate, s)"
    by (simp add: CreateVersion_def)
next
  assume "\<not> duplicate_name version (versions_tbl s)"
  then have "filter (\<lambda>r. ModID r = ModID version \<and> Version r = Version version) (versions_tbl s) = []"
    by (auto simp: filter_empty_conv duplicate_name_def)
  then show "fst (CreateVersion version newID now later s) \<noteq> Some err_duplicate"
    by (simp add: CreateVersion_def Let_def err_differ)
next
  assume "\<forall>r\<in>set (versions_tbl s). Version r = Version version \<longrightarrow> ModID r \<noteq> ModID version"
  then have "filter (\<lambda>r. ModID r = ModID version \<and> Version r = Version version) (versions_tbl s) = []"
    by (auto simp: filter_empty_conv)
  then show "fst (CreateVersion version newID now later s) \<noteq> Some err_duplicate"
    by (simp add: CreateVersion_def Let_def err_differ)
qed

theorem C3_duplicate_before_quota_witness:
  "5 \<le> length (recent_versions ''P'' (100 * hour) ex_tbl) \<and>
   CreateVersion (ex_draft ''P'' ''1.0.0'') ''n1'' (100 * hour) (100 * hour + second) (ex_state ex_tbl)
     = (Some ''this mod already has a version with this name'', ex_state ex_tbl) \<and>
   fst (CreateVersion (ex_draft ''R'' ''1.0.0'') ''n1'' (100 * hour) (100 * hour + second) (ex_state ex_tbl))
     = None"
proof -
  have a: "5 \<le> length (recent_versions ''P'' (100 * hour) ex_tbl)"
    by (simp add: recent_versions_def ex_defs)
  have b: "duplicate_name (ex_draft ''P'' ''1.0.0'') (versions_tbl (ex_state ex_tbl))"
    by (simp add: duplicate_name_def ex_defs)
  have c: "\<not> duplicate_name (ex_draft ''R'' ''1.0.0'') (versions_tbl (ex_state ex_tbl))"
    by (simp add: duplicate_name_def ex_defs)
  have d: "fst (CreateVersion (ex_draft ''R'' ''1.0.0'') ''n1'' (100 * hour) (100 * hour + second) (ex_state ex_tbl)) \<noteq> Some err_duplicate"
    using C3_duplicate_before_quota [of "ex_draft ''R'' ''1.0.0''" "ex_state ex_tbl"] c by blast
  have e: "fst (CreateVersion (ex_draft ''R'' ''1.0.0'') ''n1'' (100 * hour) (100 * hour + second) (ex_state ex_tbl)) = None"
    by (simp add: CreateVersion_def recent_versions_def ex_defs)
  from C3_duplicate_before_quota [of "ex_draft ''P'' ''1.0.0''" "ex_state ex_tbl" "''n1''" "100 * hour" "100 * hour + second"] a b d e
  show ?thesis by (simp add: err_duplicate_def)
qed

lemma recent_nth0_mem:
  assumes "recent_versions p now tbl \<noteq> []"
  shows "recent_versions p now tbl ! 0 \<in> {r \<in> set tbl. ModID r = p \<and> now - hour * 24 < CreatedAt r}"
proof -
  have "recent_versions p now tbl ! 0 \<in> set (recent_versions p now tbl)"
    using assms by (intro nth_mem) simp
  then show ?thesis by (simp only: recent_versions_set)
qed

lemma recent_nth0_least:
  assumes "r \<in> set tbl" "ModID r = p" "now - hour * 24 < CreatedAt r"
  shows "CreatedAt (recent_versions p now tbl ! 0) \<le> CreatedAt r"
proof -
  have mem: "r \<in> set (recent_versions p now tbl)"
    using assms by (simp add: recent_versions_set)
  then have ne: "recent_versions p now tbl \<noteq> []" by auto
  have fin: "finite (CreatedAt ` {r \<in> set tbl. ModID r = p \<and> now - hour * 24 < CreatedAt r})"
    by simp
  have "CreatedAt r \<in> CreatedAt ` {r \<in> set tbl. ModID r = p \<and> now - hour * 24 < CreatedAt r}"
    using assms by blast
  then have "Min (CreatedAt ` {r \<in> set tbl. ModID r = p \<and> now - hour * 24 < CreatedAt r}) \<le> CreatedAt r"
    using fin by (rule Min_le[rotated])
  then show ?thesis by (simp only: recent_oldest [OF ne])
qed

lemma fmt_minutes_cases:
  "fmt_minutes d = sprint_int (round_minutes d) \<or> (fmt_minutes d = ''-0'' \<and> round_minutes d = 0)"
  by (simp add: fmt_minutes_def)

text \<open>
  C5. A creation rejected by the quota returns the message built from the duration
  \<open>oldest.CreatedAt + 24h - later\<close>, where \<open>oldest\<close> is a counted version with the least
  creation time and \<open>later\<close> is the clock as \<open>time.Until\<close> reads it; the number printed is
  that duration in minutes, rounded to the nearest whole minute.
\<close>

theorem C5_minutes_until_oldest:
  assumes "\<not> duplicate_name version (versions_tbl s)"
    and "5 \<le> length (recent_versions (ModID version) now (versions_tbl s))"
  shows "\<exists>oldest d.
           oldest \<in> set (versions_tbl s) \<and> ModID oldest = ModID version \<and>
           now - hour * 24 < CreatedAt oldest \<and>
           (\<forall>r\<in>set (versions_tbl s). ModID r = ModID version \<and> now - hour * 24 < CreatedAt r \<longrightarrow>
              CreatedAt oldest \<le> CreatedAt r) \<and>
           d = CreatedAt oldest + hour * 24 - later \<and>
           CreateVersion version newID now later s =
             (Some (''please wait '' @ fmt_minutes d @ '' minutes to post another version''), s) \<and>
           (fmt_minutes d = sprint_int (round_minutes d) \<or>
            (fmt_minutes d = ''-0'' \<and> round_minutes d = 0)) \<and>
           2 * \<bar>round_minutes d * minute - d\<bar> \<le> minute"
proof -
  let ?rs = "recent_versions (ModID version) now (versions_tbl s)"
  let ?d = "CreatedAt (?rs ! 0) + hour * 24 - later"
  have ne: "?rs \<noteq> []" using assms(2) by auto
  have mem: "?rs ! 0 \<in> set (versions_tbl s) \<and> ModID (?rs ! 0) = ModID version \<and>
      now - hour * 24 < CreatedAt (?rs ! 0)"
    using recent_nth0_mem [OF ne] by simp
  have least: "\<forall>r\<in>set (versions_tbl s). ModID r = ModID version \<and> now - hour * 24 < CreatedAt r \<longrightarrow>
      CreatedAt (?rs ! 0) \<le> CreatedAt r"
    using recent_nth0_least by blast
  have res: "CreateVersion version newID now later s =
      (Some (''please wait '' @ fmt_minutes ?d @ '' minutes to post another version''), s)"
    using CreateVersion_rejects [of s version now newID later] assms
    by (simp add: duplicate_name_def err_rate_limit_def)
  from mem least res fmt_minutes_cases [of ?d] round_minutes_nearest [of ?d]
  show ?thesis by blast
qed

lemma sprint_30: "fmt_minutes (30 * minute - second) = ''30''"
  by (simp add: fmt_minutes_def round_minutes_def sprint_int_def sprint_nat.simps digit_char_def minute_def second_def)

theorem C5_minutes_until_oldest_witness:
  "CreateVersion (ex_draft ''P'' ''1.0.5'') ''n1'' (101 * hour) (101 * hour + second) (ex_state ex_tbl) =
     (Some ''please wait 30 minutes to post another version'', ex_state ex_tbl)"
proof -
  have a: "\<not> duplicate_name (ex_draft ''P'' ''1.0.5'') (versions_tbl (ex_state ex_tbl))"
    by (simp add: duplicate_name_def ex_defs)
  have b: "5 \<le> length (recent_versions (ModID (ex_draft ''P'' ''1.0.5'')) (101 * hour)
             (versions_tbl (ex_state ex_tbl)))"
    by (simp add: recent_versions_def ex_defs)
  obtain oldest d where o: "oldest \<in> set (versions_tbl (ex_state ex_tbl))"
     "ModID oldest = ModID (ex_draft ''P'' ''1.0.5'')"
     "101 * hour - hour * 24 < CreatedAt oldest"
     "\<forall>r\<in>set (versions_tbl (ex_state ex_tbl)).
        ModID r = ModID (ex_draft ''P'' ''1.0.5'') \<and> 101 * hour - hour * 24 < CreatedAt r \<longrightarrow>
        CreatedAt oldest \<le> CreatedAt r"
     "d = CreatedAt oldest + hour * 24 - (101 * hour + second)"
     "CreateVersion (ex_draft ''P'' ''1.0.5'') ''n1'' (101 * hour) (101 * hour + second) (ex_state ex_tbl) =
        (Some (''please wait '' @ fmt_minutes d @ '' minutes to post another version''), ex_state ex_tbl)"
    using C5_minutes_until_oldest [OF a b, of "101 * hour + second" "''n1''"] by blast
  have v4: "ex_row ''v4'' ''P'' ''1.0.3'' True False 0 (77 * hour + 30 * minute)
      \<in> set (versions_tbl (ex_state ex_tbl))" by (simp add: ex_defs)
  from o(4) v4 have "CreatedAt oldest \<le> 77 * hour + 30 * minute"
    by (auto simp: ex_defs)
  moreover from o(1,2,3) have "77 * hour + 30 * minute \<le> CreatedAt oldest"
    by (auto simp: ex_defs)
  ultimately have "d = 30 * minute - second"
    using o(5) by (simp add: hour_def)
  with o(6) show ?thesis by (simp add: sprint_30)
qed

section \<open>Cache keys\<close>

lemmas key_defs = key_GetVersionsByID_def key_GetModLatestVersions_def key_GetModsLatestVersions_def
  key_GetModVersions_def key_GetModVersionsNew_def key_GetModVersion_def
  key_GetModVersionByName_def key_GetVersion_def key_GetVersionsNew_def key_GetVersionCountNew_def

lemma call_key_split: "call_key c = op_name c @ ''_'' @ call_params c"
  by (cases c) (simp_all add: key_defs)

lemma op_name_plain: "plain (op_name c)"
  by (cases c) (simp_all add: plain_def)

lemma split_at_sep:
  assumes "sep \<notin> set a" and "sep \<notin> set a'" and "a @ sep # b = a' @ sep # b'"
  shows "a = a' \<and> b = b'"
  using assms
proof (induction a arbitrary: a')
  case Nil
  then show ?case by (cases a') auto
next
  case (Cons x a)
  then show ?case by (cases a') auto
qed

lemma split_underscore:
  assumes "plain a" and "plain a'" and "a @ ''_'' @ b = a' @ ''_'' @ b'"
  shows "a = a' \<and> b = b'"
  using split_at_sep [of "CHR ''_''" a a' b b'] assms by (simp add: plain_def)

lemma call_key_op: "call_key c1 = call_key c2 \<Longrightarrow> op_name c1 = op_name c2"
  using split_underscore [OF op_name_plain op_name_plain, of c1 "call_params c1" c2 "call_params c2"]
  by (simp add: call_key_split)

lemma call_key_params: "call_key c1 = call_key c2 \<Longrightarrow> call_params c1 = call_params c2"
  using split_underscore [OF op_name_plain op_name_plain, of c1 "call_params c1" c2 "call_params c2"]
  by (simp add: call_key_split)

lemma digit_char_cases:
  fixes n :: nat
  assumes "n < 10"
  shows "n \<in> {0, 1, 2, 3, 4, 5, 6, 7, 8, 9}"
proof -
  have "{..<10} = {0, 1, 2, 3, 4, 5, 6, 7, 8, 9 :: nat}" by auto
  with assms show ?thesis by blast
qed

lemma digit_char_in: "n < 10 \<Longrightarrow> digit_char n \<in> set ''0123456789''"
  using digit_char_cases [of n] by (auto simp: digit_char_def)

lemma digit_char_inj: "n < 10 \<Longrightarrow> m < 10 \<Longrightarrow> digit_char n = digit_char m \<Longrightarrow> n = m"
  using digit_char_cases [of n] digit_char_cases [of m] by (auto simp: digit_char_def)

lemma sprint_nat_digits: "set (sprint_nat n) \<subseteq> set ''0123456789''"
proof (induction n rule: sprint_nat.induct)
  case (1 n)
  show ?case
  proof (cases "n < 10")
    case True
    then show ?thesis using digit_char_in [of n] by (simp add: sprint_nat.simps [of n])
  next
    case False
    have "n mod 10 < 10" by simp
    then have "digit_char (n mod 10) \<in> set ''0123456789''" by (rule digit_char_in)
    with False 1 show ?thesis by (simp add: sprint_nat.simps [of n])
  qed
qed

lemma sprint_nat_nonempty: "sprint_nat n \<noteq> []"
  by (simp add: sprint_nat.simps [of n])

lemma sprint_nat_inj: "sprint_nat n = sprint_nat m \<Longrightarrow> n = m"
proof (induction n arbitrary: m rule: sprint_nat.induct)
  case (1 n)
  show ?case
  proof (cases "n < 10")
    case n: True
    show ?thesis
    proof (cases "m < 10")
      case True
      with n 1(2) show ?thesis
        by (simp add: sprint_nat.simps [of n] sprint_nat.simps [of m] digit_char_inj)
    next
      case False
      with n 1(2) show ?thesis
        using sprint_nat_nonempty [of "m div 10"]
        by (simp add: sprint_nat.simps [of n] sprint_nat.simps [of m])
    qed
  next
    case n: False
    show ?thesis
    proof (cases "m < 10")
      case True
      with n 1(2) show ?thesis
        using sprint_nat_nonempty [of "n div 10"]
        by (simp add: sprint_nat.simps [of n] sprint_nat.simps [of m])
    next
      case False
      with n 1(2) have e: "sprint_nat (n div 10) = sprint_nat (m div 10)"
        and d: "digit_char (n mod 10) = digit_char (m mod 10)"
        by (simp_all add: sprint_nat.simps [of n] sprint_nat.simps [of m])
      from 1(1) [OF n e] have "n div 10 = m div 10" .
      moreover from d have "n mod 10 = m mod 10" by (intro digit_char_inj) simp_all
      ultimately show ?thesis by (metis div_mult_mod_eq)
    qed
  qed
qed

lemma sprint_int_inj: "sprint_int i = sprint_int j \<Longrightarrow> i = j"
proof -
  assume e: "sprint_int i = sprint_int j"
  have nd: "CHR ''-'' \<notin> set (sprint_nat n)" for n
    using sprint_nat_digits [of n] by auto
  have hd: "sprint_nat n \<noteq> CHR ''-'' # xs" for n xs
    using nd [of n] by auto
  show ?thesis
  proof (cases "i < 0")
    case i: True
    show ?thesis
    proof (cases "j < 0")
      case True
      with i e have "nat (- i) = nat (- j)" by (simp add: sprint_int_def sprint_nat_inj)
      with i True show ?thesis by simp
    next
      case False
      with i e have "sprint_nat (nat j) = CHR ''-'' # sprint_nat (nat (- i))"
        by (simp add: sprint_int_def)
      with hd show ?thesis by blast
    qed
  next
    case i: False
    show ?thesis
    proof (cases "j < 0")
      case True
      with i e have "sprint_nat (nat i) = CHR ''-'' # sprint_nat (nat (- j))"
        by (simp add: sprint_int_def)
      with hd show ?thesis by blast
    next
      case False
      with i e have "nat i = nat j" by (simp add: sprint_int_def sprint_nat_inj)
      with i False show ?thesis by simp
    qed
  qed
qed

lemma sprint_int_plain: "plain (sprint_int i)"
  using sprint_nat_digits [of "nat i"] sprint_nat_digits [of "nat (- i)"]
  by (auto simp: plain_def sprint_int_def)

lemma sprint_bool_inj: "sprint_bool a = sprint_bool b \<Longrightarrow> a = b"
  by (cases a; cases b) (simp_all add: sprint_bool_def)

lemma sprint_bool_plain: "plain (sprint_bool b)"
  by (simp add: plain_def sprint_bool_def)

lemma split_last_sep:
  assumes "sep \<notin> set b" and "sep \<notin> set b'" and "a @ sep # b = a' @ sep # b'"
  shows "a = a' \<and> b = b'"
proof -
  from assms(3) have "rev (a @ sep # b) = rev (a' @ sep # b')" by simp
  then have "rev b @ sep # rev a = rev b' @ sep # rev a'" by simp
  from split_at_sep [OF _ _ this] assms(1,2) show ?thesis by simp
qed

lemma flag_suffix:
  assumes "a @ ''_'' @ sprint_bool u = b @ ''_'' @ sprint_bool u'"
  shows "u = u'"
proof -
  from assms have "rev (a @ ''_'' @ sprint_bool u) = rev (b @ ''_'' @ sprint_bool u')" by simp
  then show ?thesis by (cases u; cases u') (simp_all add: sprint_bool_def)
qed

lemma flag_cancel:
  assumes "a @ ''_'' @ sprint_bool u = b @ ''_'' @ sprint_bool u'"
  shows "a = b \<and> u = u'"
proof -
  from flag_suffix [OF assms] have u: "u = u'" .
  with assms show ?thesis by simp
qed

lemma list_shape:
  obtains "ys = []" | u where "ys = [u]" | u v ws where "ys = u # v # ws"
  by (cases ys; cases "tl ys") auto

lemma join_inj:
  assumes "list_all plain_id xs" and "list_all plain_id ys" and "join '':'' xs = join '':'' ys"
  shows "xs = ys"
  using assms
proof (induction "'':''" xs arbitrary: ys rule: join.induct)
  case 1
  then show ?case
    by (cases ys rule: list_shape) (auto simp: plain_id_def)
next
  case (2 x)
  then show ?case
    by (cases ys rule: list_shape) (auto simp: plain_id_def)
next
  case (3 x y zs)
  show ?case
  proof (cases ys rule: list_shape)
    case 1
    with 3 show ?thesis by (auto simp: plain_id_def)
  next
    case (2 u)
    with 3 show ?thesis by (auto simp: plain_id_def)
  next
    case ys: (3 u v ws)
    from "3.prems" ys have e: "x @ CHR '':'' # join '':'' (y # zs) = u @ CHR '':'' # join '':'' (v # ws)"
      by simp
    from "3.prems" ys have "CHR '':'' \<notin> set x" "CHR '':'' \<notin> set u"
      by (simp_all add: plain_id_def)
    from split_at_sep [OF this e] have xu: "x = u" and r: "join '':'' (y # zs) = join '':'' (v # ws)"
      by simp_all
    from "3.prems" ys have "list_all plain_id (y # zs)" "list_all plain_id (v # ws)" by simp_all
    from "3.hyps" [OF this r] xu ys show ?thesis by simp
  qed
qed

lemma mod_versions_params_inj:
  assumes p: "plain m" "plain od" "plain m'" "plain od'"
    and e: "m @ ''_'' @ sprint_int l @ ''_'' @ sprint_int off @ ''_'' @ ob @ ''_'' @ od @ ''_'' @ sprint_bool u =
            m' @ ''_'' @ sprint_int l' @ ''_'' @ sprint_int off' @ ''_'' @ ob' @ ''_'' @ od' @ ''_'' @ sprint_bool u'"
  shows "m = m' \<and> l = l' \<and> off = off' \<and> ob = ob' \<and> od = od' \<and> u = u'"
proof -
  from e have "(m @ ''_'' @ sprint_int l @ ''_'' @ sprint_int off @ ''_'' @ ob @ ''_'' @ od) @ ''_'' @ sprint_bool u =
      (m' @ ''_'' @ sprint_int l' @ ''_'' @ sprint_int off' @ ''_'' @ ob' @ ''_'' @ od') @ ''_'' @ sprint_bool u'"
    by simp
  from flag_cancel [OF this] have u: "u = u'"
    and e1: "m @ ''_'' @ sprint_int l @ ''_'' @ sprint_int off @ ''_'' @ ob @ ''_'' @ od =
             m' @ ''_'' @ sprint_int l' @ ''_'' @ sprint_int off' @ ''_'' @ ob' @ ''_'' @ od'"
    by simp_all
  from e1 have "(m @ ''_'' @ sprint_int l @ ''_'' @ sprint_int off @ ''_'' @ ob) @ CHR ''_'' # od =
      (m' @ ''_'' @ sprint_int l' @ ''_'' @ sprint_int off' @ ''_'' @ ob') @ CHR ''_'' # od'"
    by simp
  from split_last_sep [OF _ _ this] p(2,4) have od: "od = od'"
    and e2: "m @ ''_'' @ sprint_int l @ ''_'' @ sprint_int off @ ''_'' @ ob =
             m' @ ''_'' @ sprint_int l' @ ''_'' @ sprint_int off' @ ''_'' @ ob'"
    by (simp_all add: plain_def)
  from split_underscore [OF p(1) p(3) e2] have m: "m = m'"
    and e3: "sprint_int l @ ''_'' @ sprint_int off @ ''_'' @ ob =
             sprint_int l' @ ''_'' @ sprint_int off' @ ''_'' @ ob'"
    by simp_all
  from split_underscore [OF sprint_int_plain sprint_int_plain e3] have l: "sprint_int l = sprint_int l'"
    and e4: "sprint_int off @ ''_'' @ ob = sprint_int off' @ ''_'' @ ob'"
    by simp_all
  from split_underscore [OF sprint_int_plain sprint_int_plain e4] have off: "sprint_int off = sprint_int off'"
    and ob: "ob = ob'"
    by simp_all
  from m l off ob od u show ?thesis
    by (simp add: sprint_int_inj)
qed

lemma three_params_inj:
  assumes "plain a" "plain a'"
    and e: "a @ ''_'' @ b @ ''_'' @ sprint_bool u = a' @ ''_'' @ b' @ ''_'' @ sprint_bool u'"
  shows "a = a' \<and> b = b' \<and> u = u'"
proof -
  from e have "(a @ ''_'' @ b) @ ''_'' @ sprint_bool u = (a' @ ''_'' @ b') @ ''_'' @ sprint_bool u'"
    by simp
  from flag_cancel [OF this] have u: "u = u'" and r: "a @ ''_'' @ b = a' @ ''_'' @ b'" by simp_all
  from split_underscore [OF assms(1,2) r] u show ?thesis by simp
qed

lemma call_params_inj:
  assumes p1: "plain_call c1" and p2: "plain_call c2" and n: "op_name c1 = op_name c2"
    and e: "call_params c1 = call_params c2"
  shows "c1 = c2"
proof (cases c1)
  case c1: (CallVersionsByID ids)
  with n obtain ids' where c2: "c2 = CallVersionsByID ids'" by (cases c2) simp_all
  from p1 p2 e c1 c2 show ?thesis by (simp add: join_inj)
next
  case c1: (CallModLatestVersions m u)
  with n obtain m' u' where c2: "c2 = CallModLatestVersions m' u'" by (cases c2) simp_all
  from e c1 c2 flag_cancel [of m u m' u'] show ?thesis by simp
next
  case c1: (CallModsLatestVersions ms u)
  with n obtain ms' u' where c2: "c2 = CallModsLatestVersions ms' u'" by (cases c2) simp_all
  from p1 p2 c1 c2 have pl: "list_all plain_id ms" "list_all plain_id ms'" by simp_all
  from e c1 c2 have "join '':'' ms @ ''_'' @ sprint_bool u = join '':'' ms' @ ''_'' @ sprint_bool u'"
    by simp
  from flag_cancel [OF this] have "join '':'' ms = join '':'' ms'" and "u = u'" by simp_all
  with join_inj [OF pl] c1 c2 show ?thesis by simp
next
  case c1: (CallModVersions m l off ob od u)
  with n obtain m' l' off' ob' od' u' where c2: "c2 = CallModVersions m' l' off' ob' od' u'"
    by (cases c2) simp_all
  from p1 p2 e c1 c2 mod_versions_params_inj [of m od m' od' l off ob u l' off' ob' u']
  show ?thesis by simp
next
  case c1: (CallModVersionsNew m h u)
  with n obtain m' h' u' where c2: "c2 = CallModVersionsNew m' h' u'" by (cases c2) simp_all
  from p1 p2 e c1 c2 three_params_inj [of m m' h u h' u'] show ?thesis by simp
next
  case c1: (CallModVersion m v)
  with n obtain m' v' where c2: "c2 = CallModVersion m' v'" by (cases c2) simp_all
  from p1 p2 e c1 c2 split_underscore [of m m' v v'] show ?thesis by simp
next
  case c1: (CallModVersionByName m v)
  with n obtain m' v' where c2: "c2 = CallModVersionByName m' v'" by (cases c2) simp_all
  from p1 p2 e c1 c2 split_underscore [of m m' v v'] show ?thesis by simp
next
  case c1: (CallVersion v)
  with n obtain v' where c2: "c2 = CallVersion v'" by (cases c2) simp_all
  from e c1 c2 show ?thesis by simp
next
  case c1: (CallVersionsNew h u)
  with n obtain h' u' where c2: "c2 = CallVersionsNew h' u'" by (cases c2) simp_all
  from e c1 c2 flag_cancel [of h u h' u'] show ?thesis by simp
next
  case c1: (CallVersionCountNew h u)
  with n obtain h' u' where c2: "c2 = CallVersionCountNew h' u'" by (cases c2) simp_all
  from e c1 c2 flag_cancel [of h u h' u'] show ?thesis by simp
qed

lemma parent_A_AB:
  "key_GetModVersions ''A'' l off ob od u \<noteq> key_GetModVersions ''AB'' l' off' ob' od' u'"
  "key_GetModVersionsNew ''A'' h u \<noteq> key_GetModVersionsNew ''AB'' h' u'"
  "key_GetModLatestVersions ''A'' u \<noteq> key_GetModLatestVersions ''AB'' u'"
  by (simp_all add: key_GetModVersions_def key_GetModVersionsNew_def key_GetModLatestVersions_def)

lemma key_collisions:
  "key_GetVersionsByID [''a:b''] = key_GetVersionsByID [''a'', ''b'']"
  "key_GetVersionsByID [] = key_GetVersionsByID ['''']"
  "key_GetModVersion ''a_b'' ''c'' = key_GetModVersion ''a'' ''b_c''"
  by (simp_all add: key_GetVersionsByID_def key_GetModVersion_def)

lemma key_collision_order:
  "key_GetModVersions ''m'' l off ''created_at'' ''asc'' u =
     key_GetModVersions ''m'' l off ''created'' ''at_asc'' u"
  by (simp add: key_GetModVersions_def)

lemma call_key_inj:
  assumes "plain_call c1" and "plain_call c2" and "call_key c1 = call_key c2"
  shows "c1 = c2"
  using assms(1,2) call_key_op [OF assms(3)] call_key_params [OF assms(3)]
  by (rule call_params_inj)

text \<open>
  C6, as amended. The keys of two different operations are never equal. Within one
  operation, two calls with the same key have the same parameters provided the mod id
  that leads a key and the order direction hold no \<open>_\<close> and the ids of an id list
  are non-empty and hold no \<open>:\<close>. A list query for parent \<open>A\<close> and one for parent
  \<open>AB\<close> never have the same key.
\<close>

theorem C6_keys_distinct:
  "(call_key c1 = call_key c2 \<longrightarrow> op_name c1 = op_name c2) \<and>
   (plain_call c1 \<and> plain_call c2 \<and> call_key c1 = call_key c2 \<longrightarrow> c1 = c2) \<and>
   key_GetModVersions ''A'' l off ob od u \<noteq> key_GetModVersions ''AB'' l' off' ob' od' u' \<and>
   key_GetModVersionsNew ''A'' h u \<noteq> key_GetModVersionsNew ''AB'' h' u' \<and>
   key_GetModLatestVersions ''A'' u \<noteq> key_GetModLatestVersions ''AB'' u'"
  using call_key_op [of c1 c2] call_key_inj [of c1 c2]
    parent_A_AB(1) [of l off ob od u l' off' ob' od' u'] parent_A_AB(2) [of h u h' u']
    parent_A_AB(3) [of u u']
  by blast

text \<open>
  Parameters are concatenated as they are, so a separator inside a parameter makes
  different calls of one operation share a key.
\<close>

theorem C6_keys_distinct_counterexample:
  "key_GetVersionsByID [''a:b''] = key_GetVersionsByID [''a'', ''b''] \<and>
   key_GetVersionsByID [] = key_GetVersionsByID [''''] \<and>
   key_GetModVersion ''a_b'' ''c'' = key_GetModVersion ''a'' ''b_c'' \<and>
   key_GetModVersions ''m'' 10 0 ''created_at'' ''asc'' False =
     key_GetModVersions ''m'' 10 0 ''created'' ''at_asc'' False"
  using key_collisions key_collision_order [of 10 0 False] by blast

theorem C6_keys_distinct_witness:
  "plain_call (CallModVersions ''A'' 10 0 ''created_at'' ''asc'' False) \<and>
   plain_call (CallModVersions ''A'' 1 0 ''created_at'' ''asc'' False) \<and>
   call_key (CallModVersions ''A'' 10 0 ''created_at'' ''asc'' False) \<noteq>
   call_key (CallModVersions ''A'' 1 0 ''created_at'' ''asc'' False) \<and>
   call_key (CallVersionsByID [''v1'', ''v2'']) \<noteq> call_key (CallVersionsByID [''v1v2''])"
proof -
  let ?a = "CallModVersions ''A'' 10 0 ''created_at'' ''asc'' False"
  let ?b = "CallModVersions ''A'' 1 0 ''created_at'' ''asc'' False"
  let ?c = "CallVersionsByID [''v1'', ''v2'']" and ?d = "CallVersionsByID [''v1v2'']"
  have pa: "plain_call ?a" and pb: "plain_call ?b" by (simp_all add: plain_def)
  have pc: "plain_call ?c" and pd: "plain_call ?d" by (simp_all add: plain_id_def)
  have ne: "?a \<noteq> ?b" "?c \<noteq> ?d" by simp_all
  note T1 = C6_keys_distinct [of ?a ?b, THEN conjunct2, THEN conjunct1, rule_format]
  note T2 = C6_keys_distinct [of ?c ?d, THEN conjunct2, THEN conjunct1, rule_format]
  have 1: "call_key ?a \<noteq> call_key ?b"
  proof
    assume "call_key ?a = call_key ?b"
    with pa pb have "?a = ?b" by (intro T1 conjI)
    with ne(1) show False by contradiction
  qed
  have 2: "call_key ?c \<noteq> call_key ?d"
  proof
    assume "call_key ?c = call_key ?d"
    with pc pd have "?c = ?d" by (intro T2 conjI)
    with ne(2) show False by contradiction
  qed
  from pa pb 1 2 show ?thesis by (intro conjI)
qed

section \<open>The read-through cache\<close>

lemma find_one_read_through:
  "read_through (find_one P k) k the_version_ptr (\<lambda>x. CVersionPtr (the x)) (\<lambda>x. x \<noteq> None) (found_row P)"
  by (auto simp: read_through_def find_one_def the_version_ptr_def found_row_def Let_def
      split: option.splits cval.splits)

lemma GetVersionsByID_read_through:
  "read_through (GetVersionsByID ids) (key_GetVersionsByID ids) the_versions_opt
     (\<lambda>x. CVersions (the x)) (\<lambda>x. x \<noteq> None) (all_or_nothing ids)"
  by (auto simp: read_through_def GetVersionsByID_def the_versions_opt_def all_or_nothing_def Let_def
      split: option.splits cval.splits)

lemma GetModLatestVersions_read_through:
  "read_through (GetModLatestVersions m u) (key_GetModLatestVersions m u) the_versions_ptr
     CVersionsPtr (\<lambda>x. True) (find_latest (\<lambda>r. ModID r = m) u)"
  by (auto simp: read_through_def GetModLatestVersions_def the_versions_ptr_def Let_def
      split: option.splits cval.splits)

lemma GetModsLatestVersions_read_through:
  "read_through (GetModsLatestVersions ms u) (key_GetModsLatestVersions ms u) the_versions_ptr
     CVersionsPtr (\<lambda>x. True) (find_latest (\<lambda>r. ModID r \<in> set ms) u)"
  by (auto simp: read_through_def GetModsLatestVersions_def the_versions_ptr_def Let_def
      split: option.splits cval.splits)

lemma GetModVersions_read_through:
  "read_through (GetModVersions E m l off ob od u) (key_GetModVersions m l off ob od u) the_versions
     CVersions (\<lambda>x. True) (find_mod_versions E m l off ob od u)"
  by (auto simp: read_through_def GetModVersions_def the_versions_def Let_def
      split: option.splits cval.splits)

lemma key_nonempty:
  "key_GetModVersionsNew m h u \<noteq> []" "key_GetVersionsNew h u \<noteq> []" "key_GetVersionCountNew h u \<noteq> []"
  by (simp_all add: key_GetModVersionsNew_def key_GetVersionsNew_def key_GetVersionCountNew_def)

lemma GetModVersionsNew_read_through:
  "Hash E f = Inr h \<Longrightarrow>
   read_through (GetModVersionsNew E m f u) (key_GetModVersionsNew m h u) the_versions
     CVersions (\<lambda>x. True) (find_mod_versions_new E m f u)"
  by (auto simp: read_through_def GetModVersionsNew_def the_versions_def Let_def key_nonempty
      split: option.splits cval.splits)

lemma GetVersionsNew_read_through:
  "Hash E f = Inr h \<Longrightarrow>
   read_through (GetVersionsNew E f u) (key_GetVersionsNew h u) the_versions
     CVersions (\<lambda>x. True) (find_versions_new E f u)"
  by (auto simp: read_through_def GetVersionsNew_def the_versions_def Let_def key_nonempty
      split: option.splits cval.splits)

lemma GetVersionCountNew_read_through:
  "Hash E f = Inr h \<Longrightarrow>
   read_through (GetVersionCountNew E f u) (key_GetVersionCountNew h u) the_count
     CCount (\<lambda>x. True) (count_versions_new E f u)"
  by (auto simp: read_through_def GetVersionCountNew_def the_count_def Let_def key_nonempty
      split: option.splits cval.splits)

lemma uncached_reads:
  "always_fresh (GetVersions E l off ob od q u) (\<lambda>tbl deps. find_versions E l off ob od q u tbl)"
  "always_fresh (GetVersionCount E q u) (\<lambda>tbl deps. count_versions E q u tbl)"
  "always_fresh (GetVersionDependencies v) (\<lambda>tbl deps. filter (\<lambda>d. VersionID d = v) deps)"
  by (simp_all add: always_fresh_def GetVersions_def GetVersionCount_def GetVersionDependencies_def)

lemma CreateVersion_bypasses_cache:
  "CreateVersion v newID now later (s\<lparr>dbCache := c\<rparr>) =
     (fst (CreateVersion v newID now later s), (snd (CreateVersion v newID now later s))\<lparr>dbCache := c\<rparr>)"
  by (simp add: CreateVersion_def Let_def)

lemma hash_failure:
  assumes "Hash E f = Inl err"
  shows "GetVersionsNew E f u (s\<lparr>dbCache := c\<rparr>) =
           Return (find_versions_new E f u (versions_tbl s), s\<lparr>dbCache := c\<rparr>)"
    and "GetVersionCountNew E f u (s\<lparr>dbCache := c\<rparr>) =
           Return (count_versions_new E f u (versions_tbl s), s\<lparr>dbCache := c\<rparr>)"
    and "GetModVersionsNew E m f u (s\<lparr>dbCache := c\<rparr>) =
           Return (find_mod_versions_new E m f u (versions_tbl s), s\<lparr>dbCache := c\<rparr>)"
  using assms
  by (simp_all add: GetVersionsNew_def GetVersionCountNew_def GetModVersionsNew_def Let_def)

lemma read_through_miss:
  assumes "read_through f k unwrap wrap cacheable compute" and "dbCache s k = None"
  shows "f s = Return (compute (versions_tbl s),
           if cacheable (compute (versions_tbl s))
           then cache_set k (wrap (compute (versions_tbl s))) s else s)"
  using assms by (simp add: read_through_def Let_def)

lemma read_through_hit:
  assumes "read_through f k unwrap wrap cacheable compute"
    and "dbCache s k = Some c" and "unwrap c = Some x"
  shows "f s = Return (x, s)"
  using assms by (simp add: read_through_def)

text \<open>
  C8, as amended. Every read except \<open>GetVersions\<close>, \<open>GetVersionCount\<close> and
  \<open>GetVersionDependencies\<close> follows the read-through protocol under its derived key (the
  filtered reads when the hash succeeds); a result that is nil (no row found, or a list
  by ids that does not match) is returned without being cached. \<open>GetVersions\<close>,
  \<open>GetVersionCount\<close> and \<open>GetVersionDependencies\<close> always query the store and neither read
  nor write the cache, and \<open>CreateVersion\<close> does not depend on the cache and leaves it alone.
\<close>

theorem C8_read_through:
  "read_through (GetVersionsByID ids) (key_GetVersionsByID ids) the_versions_opt
     (\<lambda>x. CVersions (the x)) (\<lambda>x. x \<noteq> None) (all_or_nothing ids) \<and>
   read_through (GetModLatestVersions m u) (key_GetModLatestVersions m u) the_versions_ptr
     CVersionsPtr (\<lambda>x. True) (find_latest (\<lambda>r. ModID r = m) u) \<and>
   read_through (GetModsLatestVersions ms u) (key_GetModsLatestVersions ms u) the_versions_ptr
     CVersionsPtr (\<lambda>x. True) (find_latest (\<lambda>r. ModID r \<in> set ms) u) \<and>
   read_through (GetModVersions E m l off ob od u) (key_GetModVersions m l off ob od u)
     the_versions CVersions (\<lambda>x. True) (find_mod_versions E m l off ob od u) \<and>
   read_through (GetModVersion m v) (key_GetModVersion m v) the_version_ptr
     (\<lambda>x. CVersionPtr (the x)) (\<lambda>x. x \<noteq> None) (found_row (\<lambda>r. ModID r = m \<and> ID r = v)) \<and>
   read_through (GetModVersionByName m n) (key_GetModVersionByName m n) the_version_ptr
     (\<lambda>x. CVersionPtr (the x)) (\<lambda>x. x \<noteq> None) (found_row (\<lambda>r. ModID r = m \<and> Version r = n)) \<and>
   read_through (GetVersion v) (key_GetVersion v) the_version_ptr
     (\<lambda>x. CVersionPtr (the x)) (\<lambda>x. x \<noteq> None) (found_row (\<lambda>r. ID r = v)) \<and>
   (Hash E f = Inr h \<longrightarrow>
      read_through (GetModVersionsNew E m f u) (key_GetModVersionsNew m h u) the_versions
        CVersions (\<lambda>x. True) (find_mod_versions_new E m f u) \<and>
      read_through (GetVersionsNew E f u) (key_GetVersionsNew h u) the_versions
        CVersions (\<lambda>x. True) (find_versions_new E f u) \<and>
      read_through (GetVersionCountNew E f u) (key_GetVersionCountNew h u) the_count
        CCount (\<lambda>x. True) (count_versions_new E f u)) \<and>
   always_fresh (GetVersions E l off ob od q u) (\<lambda>tbl deps. find_versions E l off ob od q u tbl) \<and>
   always_fresh (GetVersionCount E q u) (\<lambda>tbl deps. count_versions E q u tbl) \<and>
   always_fresh (GetVersionDependencies v) (\<lambda>tbl deps. filter (\<lambda>d. VersionID d = v) deps) \<and>
   CreateVersion version newID now later (s\<lparr>dbCache := c\<rparr>) =
     (fst (CreateVersion version newID now later s),
      (snd (CreateVersion version newID now later s))\<lparr>dbCache := c\<rparr>)"
proof -
  have one: "read_through (GetModVersion m v) (key_GetModVersion m v) the_version_ptr
       (\<lambda>x. CVersionPtr (the x)) (\<lambda>x. x \<noteq> None) (found_row (\<lambda>r. ModID r = m \<and> ID r = v))"
    "read_through (GetModVersionByName m n) (key_GetModVersionByName m n) the_version_ptr
       (\<lambda>x. CVersionPtr (the x)) (\<lambda>x. x \<noteq> None) (found_row (\<lambda>r. ModID r = m \<and> Version r = n))"
    "read_through (GetVersion v) (key_GetVersion v) the_version_ptr
       (\<lambda>x. CVersionPtr (the x)) (\<lambda>x. x \<noteq> None) (found_row (\<lambda>r. ID r = v))"
    unfolding GetModVersion_def [abs_def] GetModVersionByName_def [abs_def] GetVersion_def [abs_def]
    by (rule find_one_read_through)+
  have new: "Hash E f = Inr h \<longrightarrow>
      read_through (GetModVersionsNew E m f u) (key_GetModVersionsNew m h u) the_versions
        CVersions (\<lambda>x. True) (find_mod_versions_new E m f u) \<and>
      read_through (GetVersionsNew E f u) (key_GetVersionsNew h u) the_versions
        CVersions (\<lambda>x. True) (find_versions_new E f u) \<and>
      read_through (GetVersionCountNew E f u) (key_GetVersionCountNew h u) the_count
        CCount (\<lambda>x. True) (count_versions_new E f u)"
    using GetModVersionsNew_read_through GetVersionsNew_read_through GetVersionCountNew_read_through
    by blast
  show ?thesis
    by (intro conjI GetVersionsByID_read_through GetModLatestVersions_read_through
        GetModsLatestVersions_read_through GetModVersions_read_through one new uncached_reads
        CreateVersion_bypasses_cache)
qed

theorem C8_read_through_witness:
  "Hash ex_env None = Inr ''nil'' \<and>
   GetVersionCountNew ex_env None False (ex_state ex_tbl) =
     Return (6, cache_set ''GetVersionCountNew_nil_false'' (CCount 6) (ex_state ex_tbl)) \<and>
   GetVersionCountNew ex_env None False (cache_set ''GetVersionCountNew_nil_false'' (CCount 6) (ex_state [])) =
     Return (6, cache_set ''GetVersionCountNew_nil_false'' (CCount 6) (ex_state [])) \<and>
   GetVersion ''nope'' (ex_state ex_tbl) = Return (None, ex_state ex_tbl) \<and>
   GetVersion ''v1'' (ex_state ex_tbl) =
     Return (Some (ex_row ''v1'' ''P'' ''1.0.0'' True False 3 (80 * hour)),
             cache_set ''GetVersion_v1'' (CVersionPtr (ex_row ''v1'' ''P'' ''1.0.0'' True False 3 (80 * hour)))
               (ex_state ex_tbl))"
proof -
  have h: "Hash ex_env None = Inr ''nil''" by (simp add: ex_env_def)
  have n: "count_versions_new ex_env None False ex_tbl = 6"
    by (simp add: count_versions_new_def visible_def ex_tbl_def ex_row_def)
  have k: "key_GetVersionCountNew ''nil'' False = ''GetVersionCountNew_nil_false''"
    "key_GetVersion ''v1'' = ''GetVersion_v1''"
    by (simp_all add: key_GetVersionCountNew_def key_GetVersion_def sprint_bool_def)
  have f: "found_row (\<lambda>r. ID r = ''nope'') ex_tbl = None"
    "found_row (\<lambda>r. ID r = ''v1'') ex_tbl = Some (ex_row ''v1'' ''P'' ''1.0.0'' True False 3 (80 * hour))"
    by (simp_all add: found_row_def first_row_def ex_tbl_def ex_row_def)
  note T = C8_read_through [where E = ex_env and f = None and h = "''nil''" and u = False]
  from T h have c: "read_through (GetVersionCountNew ex_env None False)
      (key_GetVersionCountNew ''nil'' False) the_count CCount (\<lambda>x. True)
      (count_versions_new ex_env None False)"
    by blast
  from T have g: "read_through (GetVersion v) (key_GetVersion v) the_version_ptr
     (\<lambda>x. CVersionPtr (the x)) (\<lambda>x. x \<noteq> None) (found_row (\<lambda>r. ID r = v))" for v
    by blast
  have c1: "GetVersionCountNew ex_env None False (ex_state ex_tbl) =
     Return (6, cache_set ''GetVersionCountNew_nil_false'' (CCount 6) (ex_state ex_tbl))"
    using read_through_miss [OF c, of "ex_state ex_tbl"]
    by (simp add: k n ex_state_def)
  have c2: "GetVersionCountNew ex_env None False
       (cache_set ''GetVersionCountNew_nil_false'' (CCount 6) (ex_state [])) =
     Return (6, cache_set ''GetVersionCountNew_nil_false'' (CCount 6) (ex_state []))"
    by (rule read_through_hit [OF c, of _ "CCount 6"]) (simp_all add: k cache_set_def the_count_def)
  have g1: "GetVersion ''nope'' (ex_state ex_tbl) = Return (None, ex_state ex_tbl)"
    using read_through_miss [OF g, of "ex_state ex_tbl" "''nope''"]
    by (simp add: ex_state_def f)
  have g2: "GetVersion ''v1'' (ex_state ex_tbl) =
     Return (Some (ex_row ''v1'' ''P'' ''1.0.0'' True False 3 (80 * hour)),
             cache_set ''GetVersion_v1'' (CVersionPtr (ex_row ''v1'' ''P'' ''1.0.0'' True False 3 (80 * hour)))
               (ex_state ex_tbl))"
    using read_through_miss [OF g, of "ex_state ex_tbl" "''v1''"]
    by (simp add: k ex_state_def f)
  from h c1 c2 g1 g2 show ?thesis by blast
qed

text \<open>
  \<open>GetVersions\<close> and \<open>GetVersionCount\<close> on an empty cache: the result comes back and
  nothing has been stored.
\<close>

theorem C8_read_through_counterexample:
  "GetVersions ex_env 10 0 ''id'' ''asc'' [] False (ex_state ex_tbl) =
     Return (find_versions ex_env 10 0 ''id'' ''asc'' [] False ex_tbl, ex_state ex_tbl) \<and>
   GetVersionCount ex_env [] False (ex_state ex_tbl) = Return (6, ex_state ex_tbl) \<and>
   GetVersions ex_env 10 0 ''id'' ''asc'' [] False
       (cache_set ''GetVersions_10_0_id_asc__false'' (CVersions []) (ex_state ex_tbl)) =
     Return (find_versions ex_env 10 0 ''id'' ''asc'' [] False ex_tbl,
             cache_set ''GetVersions_10_0_id_asc__false'' (CVersions []) (ex_state ex_tbl))"
  by (simp add: GetVersions_def GetVersionCount_def count_versions_def visible_def ex_state_def
      cache_set_def ex_tbl_def ex_row_def)

lemma find_by_ids_length:
  assumes "distinct (map ID tbl)"
  shows "length (find_by_ids ids tbl) = card (set ids \<inter> ID ` set tbl)"
proof -
  have d: "distinct (map ID (filter (\<lambda>r. ID r \<in> set ids) tbl))"
    using assms by (rule distinct_map_filter)
  have "length (find_by_ids ids tbl) = length (map ID (filter (\<lambda>r. ID r \<in> set ids) tbl))"
    by (simp add: find_by_ids_def)
  also have "\<dots> = card (set (map ID (filter (\<lambda>r. ID r \<in> set ids) tbl)))"
    using d by (simp only: distinct_card)
  also have "set (map ID (filter (\<lambda>r. ID r \<in> set ids) tbl)) = set ids \<inter> ID ` set tbl"
    by auto
  finally show ?thesis .
qed

lemma find_by_ids_complete:
  assumes "distinct (map ID tbl)"
  shows "length (find_by_ids ids tbl) = length ids \<longleftrightarrow> distinct ids \<and> set ids \<subseteq> ID ` set tbl"
proof
  assume eq: "length (find_by_ids ids tbl) = length ids"
  have a: "card (set ids \<inter> ID ` set tbl) \<le> card (set ids)"
    by (intro card_mono) auto
  have b: "card (set ids) \<le> length ids" by (rule card_length)
  from eq a b have c: "card (set ids) = length ids" and e: "card (set ids \<inter> ID ` set tbl) = card (set ids)"
    by (simp_all add: find_by_ids_length [OF assms])
  from c have "distinct ids" by (simp add: card_distinct)
  moreover from e have "set ids \<inter> ID ` set tbl = set ids"
    by (intro card_subset_eq) auto
  ultimately show "distinct ids \<and> set ids \<subseteq> ID ` set tbl" by blast
next
  assume h: "distinct ids \<and> set ids \<subseteq> ID ` set tbl"
  then have "set ids \<inter> ID ` set tbl = set ids" by blast
  with h show "length (find_by_ids ids tbl) = length ids"
    by (simp add: find_by_ids_length [OF assms] distinct_card)
qed

text \<open>
  C10. When hashing the filter fails, each of the three filtered reads returns the result
  of its store query, whatever the cache holds, and leaves the state with its cache as it
  was; the result is a normal return, so the hashing error does not reach the caller.
\<close>

theorem C10_hash_failure:
  assumes "Hash E vfilter = Inl err"
  shows "GetVersionsNew E vfilter unapproved (s\<lparr>dbCache := c\<rparr>) =
           Return (find_versions_new E vfilter unapproved (versions_tbl s), s\<lparr>dbCache := c\<rparr>) \<and>
         GetVersionCountNew E vfilter unapproved (s\<lparr>dbCache := c\<rparr>) =
           Return (count_versions_new E vfilter unapproved (versions_tbl s), s\<lparr>dbCache := c\<rparr>) \<and>
         GetModVersionsNew E modID vfilter unapproved (s\<lparr>dbCache := c\<rparr>) =
           Return (find_mod_versions_new E modID vfilter unapproved (versions_tbl s),
                   s\<lparr>dbCache := c\<rparr>)"
  using hash_failure [OF assms] by blast

lemma ex_find_new:
  "map ID (find_versions_new ex_env (Some (ex_filter (- 1))) False ex_tbl) =
     [''v0'', ''v1'', ''v4'', ''v5'', ''v6'', ''w1'']"
  by (simp add: find_versions_new_def filter_search_def ex_filter_def ex_env_def visible_def
      limit_rows_def offset_rows_def ex_tbl_def ex_row_def)

theorem C10_hash_failure_witness:
  "Hash ex_env (Some (ex_filter (- 1))) = Inl ''cannot hash'' \<and>
   (case GetVersionsNew ex_env (Some (ex_filter (- 1))) False
           ((ex_state ex_tbl)\<lparr>dbCache := [''GetVersionsNew__false'' \<mapsto> CVersions []]\<rparr>) of
      Panic \<Rightarrow> False
    | Return (versions, s') \<Rightarrow>
        map ID versions = [''v0'', ''v1'', ''v4'', ''v5'', ''v6'', ''w1''] \<and>
        s' = (ex_state ex_tbl)\<lparr>dbCache := [''GetVersionsNew__false'' \<mapsto> CVersions []]\<rparr>) \<and>
   GetVersionCountNew ex_env (Some (ex_filter (- 1))) False
           ((ex_state ex_tbl)\<lparr>dbCache := [''GetVersionCountNew__false'' \<mapsto> CCount 0]\<rparr>) =
     Return (6, (ex_state ex_tbl)\<lparr>dbCache := [''GetVersionCountNew__false'' \<mapsto> CCount 0]\<rparr>)"
proof -
  have h: "Hash ex_env (Some (ex_filter (- 1))) = Inl ''cannot hash''"
    by (simp add: ex_env_def ex_filter_def)
  have t: "versions_tbl (ex_state ex_tbl) = ex_tbl" by (simp add: ex_state_def)
  have n: "count_versions_new ex_env (Some (ex_filter (- 1))) False ex_tbl = 6"
    by (simp add: count_versions_new_def filter_search_def ex_filter_def visible_def ex_tbl_def ex_row_def)
  note T = C10_hash_failure [OF h, where s = "ex_state ex_tbl" and unapproved = False]
  from T [where c = "[''GetVersionsNew__false'' \<mapsto> CVersions []]"]
       T [where c = "[''GetVersionCountNew__false'' \<mapsto> CCount 0]"] h
  show ?thesis by (simp add: t n ex_find_new)
qed

section \<open>The download path\<close>

lemma first_row_None: "first_row P tbl = None \<longleftrightarrow> \<not> (\<exists>r\<in>set tbl. P r)"
  by (auto simp: first_row_def find_None_iff set_sort_by)

lemma first_row_Some: "first_row P tbl = Some v \<Longrightarrow> v \<in> set tbl \<and> P v"
proof -
  assume "first_row P tbl = Some v"
  then have "v \<in> set (sort_by (\<lambda>a b. ID a \<le> ID b) tbl) \<and> P v"
    unfolding first_row_def find_Some_iff by (metis nth_mem)
  then show ?thesis by (simp add: set_sort_by)
qed

lemma found_row_Some: "found_row P tbl = Some v \<Longrightarrow> v \<in> set tbl \<and> P v \<and> ID v \<noteq> []"
  by (auto simp: found_row_def split: option.splits if_splits dest: first_row_Some)

lemma found_row_None: "\<not> (\<exists>r\<in>set tbl. P r) \<Longrightarrow> found_row P tbl = None"
  using first_row_None [of P tbl] by (simp add: found_row_def)

lemma found_row_by_id:
  assumes "\<exists>r\<in>set tbl. ID r = versionID" and "versionID \<noteq> []"
  shows "\<exists>v\<in>set tbl. ID v = versionID \<and> found_row (\<lambda>r. ID r = versionID) tbl = Some v"
proof -
  from assms(1) obtain v where v: "first_row (\<lambda>r. ID r = versionID) tbl = Some v"
    using first_row_None [of "\<lambda>r. ID r = versionID" tbl] by fastforce
  then have "v \<in> set tbl \<and> ID v = versionID" by (rule first_row_Some)
  with v assms(2) show ?thesis by (auto simp: found_row_def)
qed

lemma GetVersion_read_through:
  "read_through (GetVersion v) (key_GetVersion v) the_version_ptr
     (\<lambda>x. CVersionPtr (the x)) (\<lambda>x. x \<noteq> None) (found_row (\<lambda>r. ID r = v))"
  unfolding GetVersion_def [abs_def] by (rule find_one_read_through)

lemma find_one_keeps:
  assumes "find_one P k s = Return (x, s1)"
  shows "versions_tbl s1 = versions_tbl s \<and> limiter s1 = limiter s \<and> deps_tbl s1 = deps_tbl s"
  using assms
  by (auto simp: find_one_def cache_set_def split: option.splits cval.splits if_splits)

lemma find_one_cached:
  assumes "find_one P k s = Return (Some v, s1)"
  shows "dbCache s1 k = Some (CVersionPtr v)"
  using assms
  by (auto simp: find_one_def cache_set_def split: option.splits cval.splits if_splits)

lemma download_unknown:
  assumes "dbCache s (key_GetVersion versionID) = None"
    and "\<not> (\<exists>r\<in>set (versions_tbl s). ID r = versionID)"
  shows "downloadVersion E realIP versionID now s = Return (String 404 ''version not found'', s)"
proof -
  have "GetVersion versionID s = Return (None, s)"
    using read_through_miss [OF GetVersion_read_through assms(1)] found_row_None [OF assms(2)]
    by simp
  then show ?thesis by (simp add: downloadVersion_def)
qed

lemma download_redirects:
  assumes "GetVersion versionID s = Return (Some version, s1)"
  shows "\<exists>s3. downloadVersion E realIP versionID now s =
           Return (Redirect 302 (GenerateDownloadLink E (Key version)), s3)"
  using assms by (simp add: downloadVersion_def Let_def split: prod.splits)

lemma download_denied:
  assumes "limiter s (realIP, ''download'', ''version:'' @ versionID) = Some until" and "now < until"
  shows "versions_tbl (state_after s (downloadVersion E realIP versionID now s)) = versions_tbl s"
proof (cases "GetVersion versionID s")
  case Panic
  then show ?thesis by (simp add: downloadVersion_def state_after_def)
next
  case (Return p)
  obtain x s1 where p: "p = (x, s1)" by (cases p)
  from Return p have keep: "versions_tbl s1 = versions_tbl s" "limiter s1 = limiter s"
    using find_one_keeps [of _ _ s x s1] by (simp_all add: GetVersion_def)
  show ?thesis
  proof (cases x)
    case None
    with Return p keep show ?thesis by (simp add: downloadVersion_def state_after_def)
  next
    case (Some v)
    with Return p keep assms show ?thesis
      by (simp add: downloadVersion_def state_after_def CanIncrement_def)
  qed
qed

lemma download_not_admitted:
  assumes "\<not> fst (CanIncrement (limiter s) realIP ''download'' (''version:'' @ versionID) (hour * 4) now)"
  shows "versions_tbl (state_after s (downloadVersion E realIP versionID now s)) = versions_tbl s"
proof -
  from assms obtain until where "limiter s (realIP, ''download'', ''version:'' @ versionID) = Some until"
    and "now < until"
    by (auto simp: CanIncrement_def split: option.splits if_splits)
  then show ?thesis by (rule download_denied)
qed

lemma download_closes_window:
  assumes "fst (CanIncrement (limiter s) realIP ''download'' (''version:'' @ versionID) (hour * 4) now)"
    and "GetVersion versionID s = Return (Some v, s1)"
  shows "limiter (state_after s (downloadVersion E realIP versionID now s))
           (realIP, ''download'', ''version:'' @ versionID) = Some (now + hour * 4)"
proof -
  from assms(2) have keep: "limiter s1 = limiter s"
    using find_one_keeps [of _ _ s "Some v" s1] by (simp add: GetVersion_def)
  from assms(1) have "CanIncrement (limiter s) realIP ''download'' (''version:'' @ versionID) (hour * 4) now =
      (True, (limiter s)((realIP, ''download'', ''version:'' @ versionID) \<mapsto> now + hour * 4))"
    by (auto simp: CanIncrement_def split: option.splits if_splits)
  with assms(2) keep show ?thesis
    by (simp add: downloadVersion_def state_after_def IncrementVersionDownloads_def)
qed

lemma download_twice:
  assumes "now \<le> now'" and "now' < now + hour * 4"
    and "fst (CanIncrement (limiter s) realIP ''download'' (''version:'' @ versionID) (hour * 4) now)"
  shows "versions_tbl (state_after (state_after s (downloadVersion E realIP versionID now s))
           (downloadVersion E realIP versionID now' (state_after s (downloadVersion E realIP versionID now s)))) =
         versions_tbl (state_after s (downloadVersion E realIP versionID now s))"
proof (cases "\<exists>v s1. GetVersion versionID s = Return (Some v, s1)")
  case True
  then obtain v s1 where g: "GetVersion versionID s = Return (Some v, s1)" by blast
  show ?thesis
    by (rule download_denied [OF download_closes_window [OF assms(3) g] assms(2)])
next
  case False
  then have same: "state_after s (downloadVersion E realIP versionID now s) = s"
    by (cases "GetVersion versionID s")
       (auto simp: downloadVersion_def state_after_def GetVersion_def find_one_def
          split: option.splits cval.splits if_splits)
  from False have "versions_tbl (state_after s (downloadVersion E realIP versionID now' s)) = versions_tbl s"
    by (cases "GetVersion versionID s")
       (auto simp: downloadVersion_def state_after_def GetVersion_def find_one_def
          split: option.splits cval.splits if_splits)
  with same show ?thesis by simp
qed

lemma ex_download_first:
  "downloadVersion ex_env ''10.0.0.1'' ''v1'' (100 * hour) (ex_state ex_small) =
     Return (Redirect 302 ''https://blobs.example/objects/v1'', ex_after_download)"
  by (simp add: downloadVersion_def GetVersion_def find_one_def first_row_def key_GetVersion_def
      CanIncrement_def IncrementVersionDownloads_def cache_set_def ex_state_def ex_small_def
      ex_row_def ex_env_def ex_after_download_def hour_def minute_def second_def)

lemma ex_download_second:
  "downloadVersion ex_env ''10.0.0.1'' ''v1'' (101 * hour) ex_after_download =
     Return (Redirect 302 ''https://blobs.example/objects/v1'', ex_after_download)"
  by (simp add: downloadVersion_def GetVersion_def find_one_def first_row_def key_GetVersion_def
      CanIncrement_def IncrementVersionDownloads_def cache_set_def 
      ex_row_def ex_env_def ex_after_download_def hour_def minute_def second_def)

section \<open>Reachable states\<close>

lemma key_flag:
  "key_GetModLatestVersions m u = key_GetModLatestVersions m' u' \<Longrightarrow> u = u'"
  "key_GetModsLatestVersions ms u = key_GetModsLatestVersions ms' u' \<Longrightarrow> u = u'"
  "key_GetModVersions m l off ob od u = key_GetModVersions m' l' off' ob' od' u' \<Longrightarrow> u = u'"
  "key_GetModVersionsNew m h u = key_GetModVersionsNew m' h' u' \<Longrightarrow> u = u'"
proof -
  show "key_GetModLatestVersions m u = key_GetModLatestVersions m' u' \<Longrightarrow> u = u'"
    using flag_suffix [of m u m' u'] by (simp add: key_GetModLatestVersions_def)
  show "key_GetModsLatestVersions ms u = key_GetModsLatestVersions ms' u' \<Longrightarrow> u = u'"
    using flag_suffix [of "join '':'' ms" u "join '':'' ms'" u']
    by (simp add: key_GetModsLatestVersions_def)
  show "key_GetModVersions m l off ob od u = key_GetModVersions m' l' off' ob' od' u' \<Longrightarrow> u = u'"
    using flag_suffix [of "m @ ''_'' @ sprint_int l @ ''_'' @ sprint_int off @ ''_'' @ ob @ ''_'' @ od" u
        "m' @ ''_'' @ sprint_int l' @ ''_'' @ sprint_int off' @ ''_'' @ ob' @ ''_'' @ od'" u']
    by (simp add: key_GetModVersions_def)
  show "key_GetModVersionsNew m h u = key_GetModVersionsNew m' h' u' \<Longrightarrow> u = u'"
    using flag_suffix [of "m @ ''_'' @ h" u "m' @ ''_'' @ h'" u']
    by (simp add: key_GetModVersionsNew_def)
qed

lemma key_GetVersion_inj: "key_GetVersion v = key_GetVersion v' \<longleftrightarrow> v = v'"
  by (simp add: key_GetVersion_def)

lemma entry_ok_unrelated:
  "entry_ok tbl (key_GetModVersion m v) c"
  "entry_ok tbl (key_GetModVersionByName m n) c"
  "entry_ok tbl (key_GetVersionsNew h u) c"
  "entry_ok tbl (key_GetVersionCountNew h u) c"
  by (simp_all add: entry_ok_def key_defs)

lemma entry_ok_version:
  assumes "v \<in> set tbl"
  shows "entry_ok tbl (key_GetVersion (ID v)) (CVersionPtr v)"
  using assms by (auto simp: entry_ok_def key_defs)

lemma entry_ok_latest:
  assumes "list_all (visible u) vs"
  shows "entry_ok tbl (key_GetModLatestVersions m u) (CVersionsPtr vs)"
  unfolding entry_ok_def
proof (intro conjI allI impI)
  fix m' u' assume "key_GetModLatestVersions m u = key_GetModLatestVersions m' u'"
  then have "u = u'" by (rule key_flag)
  with assms show "\<exists>vs'. CVersionsPtr vs = CVersionsPtr vs' \<and> list_all (visible u') vs'" by simp
qed (simp_all add: key_defs)

lemma entry_ok_latest_mods:
  assumes "list_all (visible u) vs"
  shows "entry_ok tbl (key_GetModsLatestVersions ms u) (CVersionsPtr vs)"
  unfolding entry_ok_def
proof (intro conjI allI impI)
  fix ms' u' assume "key_GetModsLatestVersions ms u = key_GetModsLatestVersions ms' u'"
  then have "u = u'" by (rule key_flag)
  with assms show "\<exists>vs'. CVersionsPtr vs = CVersionsPtr vs' \<and> list_all (visible u') vs'" by simp
qed (simp_all add: key_defs)

lemma entry_ok_mod_versions:
  assumes "list_all (visible u) vs"
  shows "entry_ok tbl (key_GetModVersions m l off ob od u) (CVersions vs)"
  unfolding entry_ok_def
proof (intro conjI allI impI)
  fix m' l' off' ob' od' u'
  assume "key_GetModVersions m l off ob od u = key_GetModVersions m' l' off' ob' od' u'"
  then have "u = u'" by (rule key_flag)
  with assms show "\<exists>vs'. CVersions vs = CVersions vs' \<and> list_all (visible u') vs'" by simp
qed (simp_all add: key_defs)

lemma entry_ok_mod_versions_new:
  assumes "list_all (visible u) vs"
  shows "entry_ok tbl (key_GetModVersionsNew m h u) (CVersions vs)"
  unfolding entry_ok_def
proof (intro conjI allI impI)
  fix m' h' u'
  assume "key_GetModVersionsNew m h u = key_GetModVersionsNew m' h' u'"
  then have "u = u'" by (rule key_flag)
  with assms show "\<exists>vs'. CVersions vs = CVersions vs' \<and> list_all (visible u') vs'" by simp
qed (simp_all add: key_defs)

lemma set_limit_rows: "set (limit_rows l rows) \<subseteq> set rows"
  by (auto simp: limit_rows_def dest: in_set_takeD)

lemma set_offset_rows: "set (offset_rows off rows) \<subseteq> set rows"
  by (auto simp: offset_rows_def dest: in_set_dropD)

lemma set_distinct_on: "set (distinct_on k rows) \<subseteq> set rows"
proof (induction k rows rule: distinct_on.induct)
  case (1 k)
  then show ?case by simp
next
  case (2 k r rs)
  then show ?case by auto
qed

lemma page_subset:
  "set (limit_rows l (offset_rows off (sort_by le rows))) \<subseteq> set rows"
  using set_limit_rows [of l "offset_rows off (sort_by le rows)"]
    set_offset_rows [of off "sort_by le rows"]
  by (simp add: set_sort_by)

lemma page_all:
  assumes "l < 0 \<or> int (length rows) \<le> l" and "off \<le> 0"
  shows "set (limit_rows l (offset_rows off (sort_by le rows))) = set rows"
proof -
  from assms(2) have "offset_rows off (sort_by le rows) = sort_by le rows"
    by (simp add: offset_rows_def)
  moreover from assms(1) have "limit_rows l (sort_by le rows) = sort_by le rows"
    by (auto simp: limit_rows_def length_sort_by)
  ultimately show ?thesis by (simp add: set_sort_by)
qed

lemma find_latest_visible: "list_all (visible u) (find_latest of_mod u tbl)"
  using set_distinct_on [of "\<lambda>r. (ModID r, Stability r)"
      "sort_by latest_le (filter (\<lambda>r. of_mod r \<and> visible u r) tbl)"]
  by (auto simp: find_latest_def list_all_iff set_sort_by)

lemma find_mod_versions_visible: "list_all (visible u) (find_mod_versions E m l off ob od u tbl)"
  using page_subset [of l off "row_le E (ob @ '' '' @ od)"
      "filter (\<lambda>r. visible u r \<and> ModID r = m) tbl"]
  by (auto simp: find_mod_versions_def list_all_iff)

lemma find_mod_versions_new_visible: "list_all (visible u) (find_mod_versions_new E m f u tbl)"
proof (cases f)
  case None
  then show ?thesis by (simp add: find_mod_versions_new_def list_all_iff)
next
  case (Some x)
  then show ?thesis
    using page_subset [of "Limit x" "Offset x" "row_le E (OrderBy x @ '' '' @ Order x)"
        "filter (\<lambda>r. visible u r \<and> ModID r = m) tbl"]
    by (auto simp: find_mod_versions_new_def list_all_iff)
qed

lemma find_versions_visible: "list_all (visible u) (find_versions E l off ob od q u tbl)"
  using page_subset [of l off "row_le E (ob @ '' '' @ od)"
      "filter (\<lambda>r. visible u r \<and> (q \<noteq> [] \<longrightarrow> search_match E q r)) tbl"]
  by (auto simp: find_versions_def list_all_iff)

lemma find_versions_subset: "set (find_versions E l off ob od q u tbl) \<subseteq> set tbl"
  using page_subset [of l off "row_le E (ob @ '' '' @ od)"
      "filter (\<lambda>r. visible u r \<and> (q \<noteq> [] \<longrightarrow> search_match E q r)) tbl"]
  by (auto simp: find_versions_def)

lemma find_versions_all:
  assumes "l < 0 \<or> int (length tbl) \<le> l" and "off \<le> 0"
  shows "set (find_versions E l off ob od q u tbl) =
         {r \<in> set tbl. visible u r \<and> (q \<noteq> [] \<longrightarrow> search_match E q r)}"
proof -
  let ?rows = "filter (\<lambda>r. visible u r \<and> (q \<noteq> [] \<longrightarrow> search_match E q r)) tbl"
  have "length ?rows \<le> length tbl" by simp
  with assms(1) have "l < 0 \<or> int (length ?rows) \<le> l" by linarith
  from page_all [OF this assms(2)] show ?thesis by (simp add: find_versions_def)
qed

lemma find_mod_versions_all:
  assumes "l < 0 \<or> int (length tbl) \<le> l" and "off \<le> 0"
  shows "set (find_mod_versions E m l off ob od u tbl) = {r \<in> set tbl. visible u r \<and> ModID r = m}"
proof -
  let ?rows = "filter (\<lambda>r. visible u r \<and> ModID r = m) tbl"
  have "length ?rows \<le> length tbl" by simp
  with assms(1) have "l < 0 \<or> int (length ?rows) \<le> l" by linarith
  from page_all [OF this assms(2)] show ?thesis by (simp add: find_mod_versions_def)
qed

lemma cache_ok_set:
  assumes "cache_ok s" and "entry_ok (versions_tbl s) k c"
  shows "cache_ok (cache_set k c s)"
  using assms by (simp add: cache_ok_def cache_set_def)

lemma cache_ok_expire:
  assumes "cache_ok s"
  shows "cache_ok (s\<lparr>dbCache := (dbCache s)(k := None)\<rparr>)"
  using assms by (simp add: cache_ok_def)

lemma read_through_after:
  assumes "read_through f k unwrap wrap cacheable compute"
  shows "state_after s (f s) = s \<or>
         (cacheable (compute (versions_tbl s)) \<and>
          state_after s (f s) = cache_set k (wrap (compute (versions_tbl s))) s)"
proof (cases "dbCache s k")
  case None
  from read_through_miss [OF assms None] show ?thesis by (simp add: state_after_def)
next
  case (Some c)
  with assms show ?thesis
    by (cases "unwrap c") (simp_all add: read_through_def state_after_def)
qed

lemma read_through_keeps:
  assumes "read_through f k unwrap wrap cacheable compute" and "cache_ok s"
    and "cacheable (compute (versions_tbl s)) \<Longrightarrow> entry_ok (versions_tbl s) k (wrap (compute (versions_tbl s)))"
  shows "cache_ok (state_after s (f s))"
  using read_through_after [OF assms(1), of s] assms(2,3) cache_ok_set by fastforce

lemma one_row_keeps:
  assumes "cache_ok s" and "\<And>tbl x. P x \<Longrightarrow> x \<in> set tbl \<Longrightarrow> entry_ok tbl k (CVersionPtr x)"
  shows "cache_ok (state_after s (find_one P k s))"
proof (rule read_through_keeps [OF find_one_read_through assms(1)])
  assume "found_row P (versions_tbl s) \<noteq> None"
  then obtain v where v: "found_row P (versions_tbl s) = Some v" by blast
  from found_row_Some [OF v] have "v \<in> set (versions_tbl s)" and "P v" by simp_all
  with assms(2) v show "entry_ok (versions_tbl s) k (CVersionPtr (the (found_row P (versions_tbl s))))"
    by simp
qed

lemma GetVersion_keeps: "cache_ok s \<Longrightarrow> cache_ok (state_after s (GetVersion v s))"
  unfolding GetVersion_def
  using entry_ok_version by (intro one_row_keeps) auto

lemma GetModVersion_keeps: "cache_ok s \<Longrightarrow> cache_ok (state_after s (GetModVersion m v s))"
  unfolding GetModVersion_def
  by (rule one_row_keeps, assumption, rule entry_ok_unrelated)

lemma GetModVersionByName_keeps:
  "cache_ok s \<Longrightarrow> cache_ok (state_after s (GetModVersionByName m n s))"
  unfolding GetModVersionByName_def
  by (rule one_row_keeps, assumption, rule entry_ok_unrelated)

lemma find_by_ids_one_for_one:
  assumes "distinct (map ID tbl)" and "length (find_by_ids ids tbl) = length ids"
  shows "one_for_one ids (find_by_ids ids tbl) \<and> set ids \<subseteq> ID ` set tbl"
proof -
  from find_by_ids_complete [OF assms(1), of ids] assms(2)
  have d: "distinct ids" and sub: "set ids \<subseteq> ID ` set tbl" by simp_all
  from sub have "ID ` set (find_by_ids ids tbl) = set ids"
    by (auto simp: find_by_ids_def)
  with d sub assms(2) show ?thesis by (simp add: one_for_one_def)
qed

lemma entry_ok_by_ids:
  assumes "one_for_one ids vs" and "set ids \<subseteq> ID ` set tbl"
  shows "entry_ok tbl (key_GetVersionsByID ids) (CVersions vs)"
  unfolding entry_ok_def
proof (intro conjI allI impI)
  fix ids' assume "key_GetVersionsByID ids = key_GetVersionsByID ids'"
  with assms show "\<exists>vs' ids''. CVersions vs = CVersions vs' \<and>
      key_GetVersionsByID ids'' = key_GetVersionsByID ids \<and> one_for_one ids'' vs' \<and>
      set ids'' \<subseteq> ID ` set tbl"
    by blast
qed (simp_all add: key_defs)

lemma GetVersionsByID_keeps:
  assumes "cache_ok s"
  shows "cache_ok (state_after s (GetVersionsByID ids s))"
proof (rule read_through_keeps [OF GetVersionsByID_read_through assms])
  assume "all_or_nothing ids (versions_tbl s) \<noteq> None"
  then have len: "length (find_by_ids ids (versions_tbl s)) = length ids"
    and val: "the (all_or_nothing ids (versions_tbl s)) = find_by_ids ids (versions_tbl s)"
    by (simp_all add: all_or_nothing_def split: if_splits)
  from assms have "distinct (map ID (versions_tbl s))" by (simp add: cache_ok_def)
  from find_by_ids_one_for_one [OF this len] val
  show "entry_ok (versions_tbl s) (key_GetVersionsByID ids)
          (CVersions (the (all_or_nothing ids (versions_tbl s))))"
    by (simp add: entry_ok_by_ids)
qed

lemma GetModLatestVersions_keeps:
  "cache_ok s \<Longrightarrow> cache_ok (state_after s (GetModLatestVersions m u s))"
  by (rule read_through_keeps [OF GetModLatestVersions_read_through])
     (simp_all add: entry_ok_latest find_latest_visible)

lemma GetModsLatestVersions_keeps:
  "cache_ok s \<Longrightarrow> cache_ok (state_after s (GetModsLatestVersions ms u s))"
  by (rule read_through_keeps [OF GetModsLatestVersions_read_through])
     (simp_all add: entry_ok_latest_mods find_latest_visible)

lemma GetModVersions_keeps:
  "cache_ok s \<Longrightarrow> cache_ok (state_after s (GetModVersions E m l off ob od u s))"
  by (rule read_through_keeps [OF GetModVersions_read_through])
     (simp_all add: entry_ok_mod_versions find_mod_versions_visible)

lemma same_cache: "s\<lparr>dbCache := dbCache s\<rparr> = s"
  by simp

lemma GetModVersionsNew_keeps:
  assumes "cache_ok s"
  shows "cache_ok (state_after s (GetModVersionsNew E m f u s))"
proof (cases "Hash E f")
  case (Inl err)
  from hash_failure(3) [OF Inl, where s = s and c = "dbCache s" and m = m and u = u] assms show ?thesis
    by (simp add: state_after_def)
next
  case (Inr h)
  show ?thesis
    by (rule read_through_keeps [OF GetModVersionsNew_read_through [OF Inr] assms])
       (simp add: entry_ok_mod_versions_new find_mod_versions_new_visible)
qed

lemma GetVersionsNew_keeps:
  assumes "cache_ok s"
  shows "cache_ok (state_after s (GetVersionsNew E f u s))"
proof (cases "Hash E f")
  case (Inl err)
  from hash_failure(1) [OF Inl, where s = s and c = "dbCache s" and u = u] assms show ?thesis
    by (simp add: state_after_def)
next
  case (Inr h)
  show ?thesis
    by (rule read_through_keeps [OF GetVersionsNew_read_through [OF Inr] assms])
       (simp add: entry_ok_unrelated)
qed

lemma GetVersionCountNew_keeps:
  assumes "cache_ok s"
  shows "cache_ok (state_after s (GetVersionCountNew E f u s))"
proof (cases "Hash E f")
  case (Inl err)
  from hash_failure(2) [OF Inl, where s = s and c = "dbCache s" and u = u] assms show ?thesis
    by (simp add: state_after_def)
next
  case (Inr h)
  show ?thesis
    by (rule read_through_keeps [OF GetVersionCountNew_read_through [OF Inr] assms])
       (simp add: entry_ok_unrelated)
qed

lemma entry_ok_append:
  assumes "entry_ok tbl k c"
  shows "entry_ok (tbl @ rows) k c"
  using assms unfolding entry_ok_def by fastforce

lemma CreateVersion_keeps:
  assumes "cache_ok s" and "newID \<notin> ID ` set (versions_tbl s)"
  shows "cache_ok (snd (CreateVersion v newID now later s))"
  using assms
  by (auto simp: CreateVersion_def Let_def cache_ok_def entry_ok_append)

lemma cache_ok_limiter: "cache_ok (s\<lparr>limiter := lim\<rparr>) = cache_ok s"
  by (simp add: cache_ok_def)


lemma cached_version:
  assumes "cache_ok s" and "dbCache s (key_GetVersion versionID) = Some (CVersionPtr version)"
  shows "ID version = versionID \<and>
         (\<exists>r\<in>set (versions_tbl s). ID r = versionID \<and> Downloads r \<le> Downloads version + 1)"
  using assms unfolding cache_ok_def entry_ok_def by fastforce

lemma increment_keeps:
  assumes ok: "cache_ok s"
    and c: "dbCache s (key_GetVersion (ID version)) = Some (CVersionPtr version)"
  shows "cache_ok (IncrementVersionDownloads version s)"
proof -
  let ?f = "\<lambda>r. if ID r = ID version then r\<lparr>Downloads := Downloads version + 1\<rparr> else r"
  let ?tbl = "versions_tbl s"
  have ids: "map (ID \<circ> ?f) ?tbl = map ID ?tbl" by (rule map_cong) auto
  have img: "ID ` set (map ?f ?tbl) = ID ` set ?tbl"
    by (simp only: set_map [symmetric] map_map ids)
  have ent: "entry_ok (map ?f ?tbl) k c'" if k: "dbCache s k = Some c'" for k c'
  proof -
    from ok k have e: "entry_ok ?tbl k c'" by (simp add: cache_ok_def)
    have "\<exists>v. c' = CVersionPtr v \<and> ID v = vid \<and>
            (\<exists>r\<in>set (map ?f ?tbl). ID r = vid \<and> Downloads r \<le> Downloads v + 1)"
      if kv: "k = key_GetVersion vid" for vid
    proof -
      from e kv obtain v r where v: "c' = CVersionPtr v" "ID v = vid" "r \<in> set ?tbl" "ID r = vid"
          "Downloads r \<le> Downloads v + 1"
        unfolding entry_ok_def by blast
      show ?thesis
      proof (cases "vid = ID version")
        case True
        with c k kv v(1) have "v = version" by simp
        with v True have "?f r \<in> set (map ?f ?tbl) \<and> ID (?f r) = vid \<and> Downloads (?f r) \<le> Downloads v + 1"
          by simp
        with v(1,2) show ?thesis by blast
      next
        case False
        with v have "?f r \<in> set (map ?f ?tbl) \<and> ID (?f r) = vid \<and> Downloads (?f r) \<le> Downloads v + 1"
          by simp
        with v(1,2) show ?thesis by blast
      qed
    qed
    with e show ?thesis unfolding entry_ok_def img by blast
  qed
  from ok have "distinct (map ID ?tbl)" by (simp add: cache_ok_def)
  then have "distinct (map ID (map ?f ?tbl))" by (simp only: map_map ids)
  with ent show ?thesis
    by (simp add: cache_ok_def IncrementVersionDownloads_def del: map_map)
qed



lemma download_effect:
  "state_after s (downloadVersion E ip versionID now s) = state_after s (GetVersion versionID s) \<or>
   (\<exists>version s1 lim. GetVersion versionID s = Return (Some version, s1) \<and>
      (state_after s (downloadVersion E ip versionID now s) = s1\<lparr>limiter := lim\<rparr> \<or>
       state_after s (downloadVersion E ip versionID now s) =
         IncrementVersionDownloads version (s1\<lparr>limiter := lim\<rparr>)))"
proof (cases "GetVersion versionID s")
  case Panic
  then show ?thesis by (simp add: downloadVersion_def state_after_def)
next
  case (Return p)
  obtain x s1 where p: "p = (x, s1)" by (cases p)
  show ?thesis
  proof (cases x)
    case None
    with Return p show ?thesis by (simp add: downloadVersion_def state_after_def)
  next
    case (Some version)
    with Return p show ?thesis
      by (auto simp: downloadVersion_def state_after_def Let_def split: prod.splits)
  qed
qed

lemma GetVersion_result:
  assumes "cache_ok s" and "GetVersion versionID s = Return (Some version, s1)"
  shows "cache_ok s1 \<and> dbCache s1 (key_GetVersion (ID version)) = Some (CVersionPtr version) \<and>
         versions_tbl s1 = versions_tbl s"
proof -
  from GetVersion_keeps [OF assms(1), of versionID] assms(2) have ok: "cache_ok s1"
    by (simp add: state_after_def)
  from assms(2) have c: "dbCache s1 (key_GetVersion versionID) = Some (CVersionPtr version)"
    unfolding GetVersion_def by (rule find_one_cached)
  from cached_version [OF ok c] have "ID version = versionID" by simp
  moreover from assms(2) have "versions_tbl s1 = versions_tbl s"
    unfolding GetVersion_def using find_one_keeps by blast
  ultimately show ?thesis using ok c by simp
qed

lemma download_keeps:
  assumes "cache_ok s"
  shows "cache_ok (state_after s (downloadVersion E ip versionID now s))"
  using download_effect [of s E ip versionID now]
proof (elim disjE exE conjE)
  assume "state_after s (downloadVersion E ip versionID now s) = state_after s (GetVersion versionID s)"
  with GetVersion_keeps [OF assms] show ?thesis by simp
next
  fix version s1 lim
  assume g: "GetVersion versionID s = Return (Some version, s1)"
    and e: "state_after s (downloadVersion E ip versionID now s) = s1\<lparr>limiter := lim\<rparr>"
  from GetVersion_result [OF assms g] e show ?thesis by (simp add: cache_ok_limiter)
next
  fix version s1 lim
  assume g: "GetVersion versionID s = Return (Some version, s1)"
    and e: "state_after s (downloadVersion E ip versionID now s) =
         IncrementVersionDownloads version (s1\<lparr>limiter := lim\<rparr>)"
  from GetVersion_result [OF assms g]
  have "cache_ok (s1\<lparr>limiter := lim\<rparr>)"
    and "dbCache (s1\<lparr>limiter := lim\<rparr>) (key_GetVersion (ID version)) = Some (CVersionPtr version)"
    by (simp_all add: cache_ok_limiter)
  from increment_keeps [OF this] e show ?thesis by simp
qed

lemma uncached_after:
  "state_after s (GetVersions E l off ob od q u s) = s"
  "state_after s (GetVersionCount E q u s) = s"
  "state_after s (GetVersionDependencies v s) = s"
  by (simp_all add: GetVersions_def GetVersionCount_def GetVersionDependencies_def state_after_def)

lemma exec_keeps:
  assumes "cache_ok s" and "admissible oper s"
  shows "cache_ok (exec E oper s)"
proof (cases oper)
  case (OpCreateVersion v newID now later)
  with assms show ?thesis by (simp add: CreateVersion_keeps)
next
  case (OpDownloadVersion ip v now)
  with assms show ?thesis by (simp add: download_keeps)
next
  case (OpExpire k)
  with assms show ?thesis by (simp add: cache_ok_expire)
qed (use assms in \<open>simp_all add: GetVersionsByID_keeps GetModLatestVersions_keeps
      GetModsLatestVersions_keeps GetModVersions_keeps GetModVersionsNew_keeps GetModVersion_keeps
      GetModVersionByName_keeps GetVersion_keeps GetVersionsNew_keeps GetVersionCountNew_keeps
      uncached_after\<close>)

lemma reachable_cache_ok: "reachable E s \<Longrightarrow> cache_ok s"
proof (induction rule: reachable.induct)
  case (start tbl deps lim)
  then show ?case by (simp add: cache_ok_def)
next
  case (step s oper)
  then show ?case by (simp add: exec_keeps)
qed










lemma ex_small_reachable: "reachable ex_env (ex_state ex_small)"
  unfolding ex_state_def
  by (rule reachable.start) (simp add: ex_small_def ex_row_def)







lemma read_through_result:
  assumes "read_through f k unwrap wrap cacheable compute" and "f s = Return (x, s')"
  shows "(dbCache s k = None \<and> x = compute (versions_tbl s)) \<or>
         (\<exists>c. dbCache s k = Some c \<and> unwrap c = Some x)"
proof (cases "dbCache s k")
  case None
  from read_through_miss [OF assms(1) None] assms(2) show ?thesis using None by simp
next
  case (Some c)
  with assms show ?thesis
    by (cases "unwrap c") (simp_all add: read_through_def)
qed

lemma GetModVersions_sound:
  assumes "cache_ok s" and "GetModVersions E m l off ob od u s = Return (vs, s')"
  shows "list_all (visible u) vs"
  using read_through_result [OF GetModVersions_read_through assms(2)]
proof (elim disjE exE conjE)
  assume "vs = find_mod_versions E m l off ob od u (versions_tbl s)"
  then show ?thesis by (simp add: find_mod_versions_visible)
next
  fix c assume c: "dbCache s (key_GetModVersions m l off ob od u) = Some c" "the_versions c = Some vs"
  from assms(1) c(1) have "entry_ok (versions_tbl s) (key_GetModVersions m l off ob od u) c"
    by (simp add: cache_ok_def)
  then obtain vs' where "c = CVersions vs'" "list_all (visible u) vs'"
    unfolding entry_ok_def by blast
  with c(2) show ?thesis by (simp add: the_versions_def)
qed

lemma GetModVersionsNew_sound:
  assumes "cache_ok s" and "GetModVersionsNew E m f u s = Return (vs, s')"
  shows "list_all (visible u) vs"
proof (cases "Hash E f")
  case (Inl err)
  from hash_failure(3) [OF Inl, where s = s and c = "dbCache s" and m = m and u = u] assms(2)
  show ?thesis by (simp add: find_mod_versions_new_visible)
next
  case (Inr h)
  from read_through_result [OF GetModVersionsNew_read_through [OF Inr] assms(2)]
  show ?thesis
  proof (elim disjE exE conjE)
    assume "vs = find_mod_versions_new E m f u (versions_tbl s)"
    then show ?thesis by (simp add: find_mod_versions_new_visible)
  next
    fix c assume c: "dbCache s (key_GetModVersionsNew m h u) = Some c" "the_versions c = Some vs"
    from assms(1) c(1) have "entry_ok (versions_tbl s) (key_GetModVersionsNew m h u) c"
      by (simp add: cache_ok_def)
    then obtain vs' where "c = CVersions vs'" "list_all (visible u) vs'"
      unfolding entry_ok_def by blast
    with c(2) show ?thesis by (simp add: the_versions_def)
  qed
qed

lemma GetModLatestVersions_sound:
  assumes "cache_ok s" and "GetModLatestVersions m u s = Return (vs, s')"
  shows "list_all (visible u) vs"
  using read_through_result [OF GetModLatestVersions_read_through assms(2)]
proof (elim disjE exE conjE)
  assume "vs = find_latest (\<lambda>r. ModID r = m) u (versions_tbl s)"
  then show ?thesis by (simp add: find_latest_visible)
next
  fix c assume c: "dbCache s (key_GetModLatestVersions m u) = Some c" "the_versions_ptr c = Some vs"
  from assms(1) c(1) have "entry_ok (versions_tbl s) (key_GetModLatestVersions m u) c"
    by (simp add: cache_ok_def)
  then obtain vs' where "c = CVersionsPtr vs'" "list_all (visible u) vs'"
    unfolding entry_ok_def by blast
  with c(2) show ?thesis by (simp add: the_versions_ptr_def)
qed

lemma GetModsLatestVersions_sound:
  assumes "cache_ok s" and "GetModsLatestVersions ms u s = Return (vs, s')"
  shows "list_all (visible u) vs"
  using read_through_result [OF GetModsLatestVersions_read_through assms(2)]
proof (elim disjE exE conjE)
  assume "vs = find_latest (\<lambda>r. ModID r \<in> set ms) u (versions_tbl s)"
  then show ?thesis by (simp add: find_latest_visible)
next
  fix c assume c: "dbCache s (key_GetModsLatestVersions ms u) = Some c" "the_versions_ptr c = Some vs"
  from assms(1) c(1) have "entry_ok (versions_tbl s) (key_GetModsLatestVersions ms u) c"
    by (simp add: cache_ok_def)
  then obtain vs' where "c = CVersionsPtr vs'" "list_all (visible u) vs'"
    unfolding entry_ok_def by blast
  with c(2) show ?thesis by (simp add: the_versions_ptr_def)
qed

lemma GetVersions_sound:
  assumes "GetVersions E l off ob od q u s = Return (vs, s')"
  shows "list_all (visible u) vs"
proof -
  from assms have "vs = find_versions E l off ob od q u (versions_tbl s)"
    by (auto simp: GetVersions_def)
  then show ?thesis by (simp only: find_versions_visible)
qed

lemma GetVersions_complete:
  assumes "l < 0 \<or> int (length (versions_tbl s)) \<le> l" and "off \<le> 0"
  shows "\<exists>vs. GetVersions E l off ob od q u s = Return (vs, s) \<and>
           set vs = {r \<in> set (versions_tbl s). visible u r \<and> (q \<noteq> [] \<longrightarrow> search_match E q r)}"
  using find_versions_all [OF assms] by (simp add: GetVersions_def)

lemma GetModVersions_complete:
  assumes "l < 0 \<or> int (length (versions_tbl s)) \<le> l" and "off \<le> 0"
    and "dbCache s (key_GetModVersions m l off ob od u) = None"
  shows "\<exists>vs s'. GetModVersions E m l off ob od u s = Return (vs, s') \<and>
           set vs = {r \<in> set (versions_tbl s). visible u r \<and> ModID r = m}"
  using read_through_miss [OF GetModVersions_read_through assms(3), of E]
    find_mod_versions_all [OF assms(1,2)]
  by simp

lemma visible_cases:
  "(visible False r \<longleftrightarrow> Approved r \<and> \<not> Denied r) \<and> (visible True r \<longleftrightarrow> \<not> Approved r \<and> \<not> Denied r)"
  by (simp add: visible_def)

text \<open>
  C1, as amended. The flag switches the predicate, it does not relax it: with
  \<open>unapproved = false\<close> a row is visible when it is approved and not denied, with
  \<open>unapproved = true\<close> when it is not approved and not denied. In every reachable state
  the rows that \<open>GetVersions\<close>, \<open>GetModVersions\<close>, \<open>GetModVersionsNew\<close>,
  \<open>GetModLatestVersions\<close> and \<open>GetModsLatestVersions\<close> return are all visible for the
  flag of the call, from the store and from the cache alike, and \<open>GetVersionCount\<close> counts
  the visible rows (that match the search). With a limit of at least the table's size (or
  none) and no offset, \<open>GetVersions\<close>, and \<open>GetModVersions\<close> when it reaches the store,
  return every visible row (of the mod).
\<close>

theorem C1_visibility:
  assumes "reachable E s"
  shows "(visible False r \<longleftrightarrow> Approved r \<and> \<not> Denied r) \<and>
         (visible True r \<longleftrightarrow> \<not> Approved r \<and> \<not> Denied r) \<and>
         (\<forall>vs s'. GetVersions E l off ob od q u s = Return (vs, s') \<longrightarrow> list_all (visible u) vs) \<and>
         (\<forall>vs s'. GetModVersions E m l off ob od u s = Return (vs, s') \<longrightarrow> list_all (visible u) vs) \<and>
         (\<forall>vs s'. GetModVersionsNew E m f u s = Return (vs, s') \<longrightarrow> list_all (visible u) vs) \<and>
         (\<forall>vs s'. GetModLatestVersions m u s = Return (vs, s') \<longrightarrow> list_all (visible u) vs) \<and>
         (\<forall>vs s'. GetModsLatestVersions ms u s = Return (vs, s') \<longrightarrow> list_all (visible u) vs) \<and>
         GetVersionCount E q u s =
           Return (int (length (filter (\<lambda>r. visible u r \<and> (q \<noteq> [] \<longrightarrow> search_match E q r))
                     (versions_tbl s))), s) \<and>
         ((l < 0 \<or> int (length (versions_tbl s)) \<le> l) \<and> off \<le> 0 \<longrightarrow>
            (\<exists>vs. GetVersions E l off ob od q u s = Return (vs, s) \<and>
               set vs = {r \<in> set (versions_tbl s). visible u r \<and> (q \<noteq> [] \<longrightarrow> search_match E q r)})) \<and>
         ((l < 0 \<or> int (length (versions_tbl s)) \<le> l) \<and> off \<le> 0 \<and>
            dbCache s (key_GetModVersions m l off ob od u) = None \<longrightarrow>
            (\<exists>vs s'. GetModVersions E m l off ob od u s = Return (vs, s') \<and>
               set vs = {r \<in> set (versions_tbl s). visible u r \<and> ModID r = m}))"
proof -
  note ok = reachable_cache_ok [OF assms]
  have cnt: "GetVersionCount E q u s =
      Return (int (length (filter (\<lambda>r. visible u r \<and> (q \<noteq> [] \<longrightarrow> search_match E q r))
                (versions_tbl s))), s)"
    by (simp add: GetVersionCount_def count_versions_def)
  show ?thesis
  proof (intro conjI allI impI)
    show "visible False r \<longleftrightarrow> Approved r \<and> \<not> Denied r" by (simp add: visible_def)
    show "visible True r \<longleftrightarrow> \<not> Approved r \<and> \<not> Denied r" by (simp add: visible_def)
    show "list_all (visible u) vs" if "GetVersions E l off ob od q u s = Return (vs, s')" for vs s'
      using that by (rule GetVersions_sound)
    show "list_all (visible u) vs" if "GetModVersions E m l off ob od u s = Return (vs, s')" for vs s'
      using ok that by (rule GetModVersions_sound)
    show "list_all (visible u) vs" if "GetModVersionsNew E m f u s = Return (vs, s')" for vs s'
      using ok that by (rule GetModVersionsNew_sound)
    show "list_all (visible u) vs" if "GetModLatestVersions m u s = Return (vs, s')" for vs s'
      using ok that by (rule GetModLatestVersions_sound)
    show "list_all (visible u) vs" if "GetModsLatestVersions ms u s = Return (vs, s')" for vs s'
      using ok that by (rule GetModsLatestVersions_sound)
    show "GetVersionCount E q u s =
      Return (int (length (filter (\<lambda>r. visible u r \<and> (q \<noteq> [] \<longrightarrow> search_match E q r))
                (versions_tbl s))), s)"
      by (rule cnt)
    show "\<exists>vs. GetVersions E l off ob od q u s = Return (vs, s) \<and>
               set vs = {r \<in> set (versions_tbl s). visible u r \<and> (q \<noteq> [] \<longrightarrow> search_match E q r)}"
      if "(l < 0 \<or> int (length (versions_tbl s)) \<le> l) \<and> off \<le> 0"
      using that by (intro GetVersions_complete) simp_all
    show "\<exists>vs s'. GetModVersions E m l off ob od u s = Return (vs, s') \<and>
               set vs = {r \<in> set (versions_tbl s). visible u r \<and> ModID r = m}"
      if "(l < 0 \<or> int (length (versions_tbl s)) \<le> l) \<and> off \<le> 0 \<and>
            dbCache s (key_GetModVersions m l off ob od u) = None"
      using that by (intro GetModVersions_complete) simp_all
  qed
qed

text \<open>
  With \<open>unapproved = true\<close> and a limit above the table's size, \<open>GetVersions\<close> returns
  the one row that is neither approved nor denied; the approved row \<open>v1\<close> is stored and
  not returned.
\<close>

theorem C1_visibility_counterexample:
  "GetVersions ex_env 100 0 ''id'' ''asc'' [] True (ex_state ex_tbl) =
     Return ([ex_row ''v2'' ''P'' ''1.0.1'' False False 0 (78 * hour)], ex_state ex_tbl) \<and>
   ex_row ''v1'' ''P'' ''1.0.0'' True False 3 (80 * hour) \<in> set (versions_tbl (ex_state ex_tbl)) \<and>
   Approved (ex_row ''v1'' ''P'' ''1.0.0'' True False 3 (80 * hour)) \<and>
   \<not> Denied (ex_row ''v1'' ''P'' ''1.0.0'' True False 3 (80 * hour)) \<and>
   GetVersionCount ex_env [] True (ex_state ex_tbl) = Return (1, ex_state ex_tbl)"
  by (simp add: GetVersions_def find_versions_def GetVersionCount_def count_versions_def visible_def
      limit_rows_def offset_rows_def ex_state_def ex_tbl_def ex_row_def ex_env_def)

lemma ex_find_public:
  "find_mod_versions ex_env ''P'' 100 0 ''id'' ''asc'' False ex_tbl = ex_public"
  by (simp add: find_mod_versions_def visible_def limit_rows_def offset_rows_def ex_tbl_def
      ex_public_def ex_row_def ex_env_def)

lemma ex_tbl_reachable: "reachable ex_env (ex_state ex_tbl)"
  unfolding ex_state_def
  by (rule reachable.start) (simp add: ex_tbl_def ex_row_def)

theorem C1_visibility_witness:
  "reachable ex_env
     (cache_set (key_GetModVersions ''P'' 100 0 ''id'' ''asc'' False) (CVersions ex_public)
        (ex_state ex_tbl)) \<and>
   GetModVersions ex_env ''P'' 100 0 ''id'' ''asc'' False
     (cache_set (key_GetModVersions ''P'' 100 0 ''id'' ''asc'' False) (CVersions ex_public)
        (ex_state ex_tbl)) =
     Return (ex_public,
       cache_set (key_GetModVersions ''P'' 100 0 ''id'' ''asc'' False) (CVersions ex_public)
         (ex_state ex_tbl)) \<and>
   list_all (visible False) ex_public \<and>
   GetVersionCount ex_env [] False (ex_state ex_tbl) = Return (6, ex_state ex_tbl)"
proof -
  let ?k = "key_GetModVersions ''P'' 100 0 ''id'' ''asc'' False"
  let ?s1 = "cache_set ?k (CVersions ex_public) (ex_state ex_tbl)"
  have miss: "dbCache (ex_state ex_tbl) ?k = None" by (simp add: ex_state_def)
  have first: "GetModVersions ex_env ''P'' 100 0 ''id'' ''asc'' False (ex_state ex_tbl) =
      Return (ex_public, ?s1)"
  proof -
    have t: "versions_tbl (ex_state ex_tbl) = ex_tbl" by (simp add: ex_state_def)
    from read_through_miss [OF GetModVersions_read_through miss, of ex_env]
    show ?thesis by (simp only: t ex_find_public if_True)
  qed
  have "reachable ex_env (exec ex_env (OpGetModVersions ''P'' 100 0 ''id'' ''asc'' False) (ex_state ex_tbl))"
    by (rule reachable.step [OF ex_tbl_reachable]) simp
  then have r: "reachable ex_env ?s1" by (simp add: first state_after_def)
  have hit: "GetModVersions ex_env ''P'' 100 0 ''id'' ''asc'' False ?s1 = Return (ex_public, ?s1)"
    by (rule read_through_hit [OF GetModVersions_read_through, where c = "CVersions ex_public"])
       (simp_all add: cache_set_def the_versions_def)
  note T = C1_visibility [OF ex_tbl_reachable, where q = "[]" and u = False]
  note T1 = C1_visibility [OF r, where m = "''P''" and l = 100 and off = 0 and ob = "''id''"
      and od = "''asc''" and u = False]
  note sound = T1 [THEN conjunct2, THEN conjunct2, THEN conjunct2, THEN conjunct1, rule_format]
  note count = T [THEN conjunct2, THEN conjunct2, THEN conjunct2, THEN conjunct2, THEN conjunct2,
      THEN conjunct2, THEN conjunct2, THEN conjunct1]
  from hit have v: "list_all (visible False) ex_public" by (rule sound)
  have n: "int (length (filter (\<lambda>r. visible False r \<and> ([] \<noteq> ([]::string) \<longrightarrow> search_match ex_env [] r))
                (versions_tbl (ex_state ex_tbl)))) = 6"
    by (simp add: visible_def ex_state_def ex_tbl_def ex_row_def)
  from count have c: "GetVersionCount ex_env [] False (ex_state ex_tbl) = Return (6, ex_state ex_tbl)"
    by (simp only: n)
  from r hit v c show ?thesis by (intro conjI)
qed


section \<open>The list-by-ids operation\<close>

lemma by_ids_same_key:
  assumes "key_GetVersionsByID ids' = key_GetVersionsByID ids"
    and "list_all plain_id ids" and "list_all plain_id ids'"
  shows "ids' = ids"
proof -
  from assms(1) have "join '':'' ids' = join '':'' ids" by (simp add: key_GetVersionsByID_def)
  from join_inj [OF assms(3,2) this] show ?thesis .
qed

lemma GetVersionsByID_returns:
  assumes ok: "cache_ok s" and r: "GetVersionsByID ids s = Return (Some vs, s')"
  shows "\<exists>ids'. key_GetVersionsByID ids' = key_GetVersionsByID ids \<and> one_for_one ids' vs \<and>
           set ids' \<subseteq> ID ` set (versions_tbl s)"
  using read_through_result [OF GetVersionsByID_read_through r]
proof (elim disjE exE conjE)
  assume "Some vs = all_or_nothing ids (versions_tbl s)"
  then have len: "length (find_by_ids ids (versions_tbl s)) = length ids"
    and vs: "vs = find_by_ids ids (versions_tbl s)"
    by (simp_all add: all_or_nothing_def split: if_splits)
  from ok have "distinct (map ID (versions_tbl s))" by (simp add: cache_ok_def)
  from find_by_ids_one_for_one [OF this len] vs show ?thesis by blast
next
  fix c assume c: "dbCache s (key_GetVersionsByID ids) = Some c" "the_versions_opt c = Some (Some vs)"
  from ok c(1) have "entry_ok (versions_tbl s) (key_GetVersionsByID ids) c"
    by (simp add: cache_ok_def)
  then obtain vs' ids' where e: "c = CVersions vs'"
      "key_GetVersionsByID ids' = key_GetVersionsByID ids" "one_for_one ids' vs'"
      "set ids' \<subseteq> ID ` set (versions_tbl s)"
    unfolding entry_ok_def by blast
  with c(2) have "vs' = vs" by (simp add: the_versions_opt_def)
  with e show ?thesis by blast
qed

lemma GetVersionsByID_plain:
  assumes ok: "cache_ok s" and r: "GetVersionsByID ids s = Return (Some vs, s')"
    and pt: "list_all plain_id (map ID (versions_tbl s))" and pi: "list_all plain_id ids"
  shows "one_for_one ids vs \<and> set ids \<subseteq> ID ` set (versions_tbl s)"
proof -
  from GetVersionsByID_returns [OF ok r] obtain ids' where
    i: "key_GetVersionsByID ids' = key_GetVersionsByID ids" "one_for_one ids' vs"
       "set ids' \<subseteq> ID ` set (versions_tbl s)"
    by blast
  from i(3) pt have "list_all plain_id ids'" by (auto simp: list_all_iff)
  from by_ids_same_key [OF i(1) pi this] i(2,3) show ?thesis by simp
qed

lemma GetVersionsByID_nil:
  assumes "GetVersionsByID ids s = Return (None, s')"
  shows "s' = s \<and> dbCache s (key_GetVersionsByID ids) = None \<and>
         length (find_by_ids ids (versions_tbl s)) \<noteq> length ids"
  using assms
  by (auto simp: GetVersionsByID_def Let_def split: option.splits cval.splits if_splits)

lemma GetVersionsByID_total:
  assumes ok: "cache_ok s"
  shows "\<exists>x s'. GetVersionsByID ids s = Return (x, s')"
proof (cases "dbCache s (key_GetVersionsByID ids)")
  case None
  then show ?thesis by (simp add: GetVersionsByID_def Let_def)
next
  case (Some c)
  with ok have "entry_ok (versions_tbl s) (key_GetVersionsByID ids) c" by (simp add: cache_ok_def)
  then obtain vs where "c = CVersions vs" unfolding entry_ok_def by blast
  with Some show ?thesis by (simp add: GetVersionsByID_def)
qed

lemma GetVersionsByID_mismatch:
  assumes ok: "cache_ok s"
    and pt: "list_all plain_id (map ID (versions_tbl s))" and pi: "list_all plain_id ids"
    and len: "length (find_by_ids ids (versions_tbl s)) \<noteq> length ids"
  shows "GetVersionsByID ids s = Return (None, s)"
proof -
  from GetVersionsByID_total [OF ok] obtain x s' where r: "GetVersionsByID ids s = Return (x, s')"
    by blast
  show ?thesis
  proof (cases x)
    case None
    with r GetVersionsByID_nil [of ids s s'] show ?thesis by simp
  next
    case (Some vs)
    with r have "one_for_one ids vs \<and> set ids \<subseteq> ID ` set (versions_tbl s)"
      using GetVersionsByID_plain [OF ok _ pt pi] by simp
    then have "distinct ids \<and> set ids \<subseteq> ID ` set (versions_tbl s)"
      by (simp add: one_for_one_def)
    moreover from ok have "distinct (map ID (versions_tbl s))" by (simp add: cache_ok_def)
    ultimately have "length (find_by_ids ids (versions_tbl s)) = length ids"
      by (simp add: find_by_ids_complete)
    with len show ?thesis by simp
  qed
qed

lemma ex_ids_cached_reachable: "reachable ex_env ex_ids_cached"
proof -
  let ?s1 = "exec ex_env (OpGetVersionsByID [''v1'', ''w1'']) (ex_state ex_small)"
  have r1: "reachable ex_env ?s1"
    by (rule reachable.step [OF ex_small_reachable]) simp
  have r2: "reachable ex_env (exec ex_env (OpGetVersionsByID []) ?s1)"
    by (rule reachable.step [OF r1]) simp
  have s1: "?s1 = cache_set ''GetVersionsById_v1:w1'' (CVersions ex_small) (ex_state ex_small)"
    by (simp add: GetVersionsByID_def Let_def key_GetVersionsByID_def find_by_ids_def
        state_after_def cache_set_def ex_state_def ex_small_def ex_row_def)
  have "exec ex_env (OpGetVersionsByID []) ?s1 = ex_ids_cached"
    unfolding s1
    by (simp add: GetVersionsByID_def Let_def key_GetVersionsByID_def find_by_ids_def
        state_after_def cache_set_def ex_ids_cached_def ex_state_def)
  with r2 show ?thesis by simp
qed

text \<open>
  C9, as amended. The list-by-ids operation is all-or-nothing whenever it queries the
  store, that is when nothing is cached under its key: if the number of rows the store
  returns differs from the number of requested ids (with distinct stored ids: some id is
  missing or repeated), it returns nil and writes nothing to the cache; otherwise it
  caches the rows and returns them. An entry cached under its key is returned without a
  store query. Nil is only ever returned after a store query with a different number of
  rows, and leaves the state as it was. In every state the service can reach, a list that
  is returned matches one for one a list of stored ids that has the same cache key; when
  the stored ids and the requested ids are non-empty and contain no colon, that list is
  the request itself, so the operation then returns nil whenever the store holds a
  different number of rows for the request, and returns only a list that matches the
  request one for one.
\<close>

theorem C9_all_or_nothing:
  "(dbCache s (key_GetVersionsByID versionIds) = None \<and>
      length (find_by_ids versionIds (versions_tbl s)) \<noteq> length versionIds \<longrightarrow>
      GetVersionsByID versionIds s = Return (None, s)) \<and>
   (dbCache s (key_GetVersionsByID versionIds) = None \<and>
      length (find_by_ids versionIds (versions_tbl s)) = length versionIds \<longrightarrow>
      GetVersionsByID versionIds s =
        Return (Some (find_by_ids versionIds (versions_tbl s)),
                cache_set (key_GetVersionsByID versionIds)
                  (CVersions (find_by_ids versionIds (versions_tbl s))) s)) \<and>
   (distinct (map ID (versions_tbl s)) \<longrightarrow>
      (length (find_by_ids versionIds (versions_tbl s)) = length versionIds \<longleftrightarrow>
       distinct versionIds \<and> set versionIds \<subseteq> ID ` set (versions_tbl s))) \<and>
   (dbCache s (key_GetVersionsByID versionIds) = Some (CVersions versions) \<longrightarrow>
      GetVersionsByID versionIds s = Return (Some versions, s)) \<and>
   (GetVersionsByID versionIds s = Return (None, s') \<longrightarrow>
      s' = s \<and> dbCache s (key_GetVersionsByID versionIds) = None \<and>
      length (find_by_ids versionIds (versions_tbl s)) \<noteq> length versionIds) \<and>
   (reachable E s \<and> GetVersionsByID versionIds s = Return (Some versions, s') \<longrightarrow>
      (\<exists>ids'. key_GetVersionsByID ids' = key_GetVersionsByID versionIds \<and>
         one_for_one ids' versions \<and> set ids' \<subseteq> ID ` set (versions_tbl s))) \<and>
   (reachable E s \<and> list_all plain_id (map ID (versions_tbl s)) \<and>
      list_all plain_id versionIds \<longrightarrow>
      (length (find_by_ids versionIds (versions_tbl s)) \<noteq> length versionIds \<longrightarrow>
         GetVersionsByID versionIds s = Return (None, s)) \<and>
      (GetVersionsByID versionIds s = Return (Some versions, s') \<longrightarrow>
         one_for_one versionIds versions \<and> set versionIds \<subseteq> ID ` set (versions_tbl s)))"
proof (intro conjI impI)
  assume "dbCache s (key_GetVersionsByID versionIds) = None \<and>
      length (find_by_ids versionIds (versions_tbl s)) \<noteq> length versionIds"
  then show "GetVersionsByID versionIds s = Return (None, s)"
    by (auto simp: GetVersionsByID_def Let_def)
next
  assume "dbCache s (key_GetVersionsByID versionIds) = None \<and>
      length (find_by_ids versionIds (versions_tbl s)) = length versionIds"
  then show "GetVersionsByID versionIds s =
        Return (Some (find_by_ids versionIds (versions_tbl s)),
                cache_set (key_GetVersionsByID versionIds)
                  (CVersions (find_by_ids versionIds (versions_tbl s))) s)"
    by (simp add: GetVersionsByID_def Let_def)
next
  assume "distinct (map ID (versions_tbl s))"
  then show "length (find_by_ids versionIds (versions_tbl s)) = length versionIds \<longleftrightarrow>
       distinct versionIds \<and> set versionIds \<subseteq> ID ` set (versions_tbl s)"
    by (rule find_by_ids_complete)
next
  assume "dbCache s (key_GetVersionsByID versionIds) = Some (CVersions versions)"
  then show "GetVersionsByID versionIds s = Return (Some versions, s)"
    by (simp add: GetVersionsByID_def)
next
  assume n: "GetVersionsByID versionIds s = Return (None, s')"
  from GetVersionsByID_nil [OF n] show "s' = s" by simp
  from GetVersionsByID_nil [OF n] show "dbCache s (key_GetVersionsByID versionIds) = None" by simp
  from GetVersionsByID_nil [OF n]
  show "length (find_by_ids versionIds (versions_tbl s)) \<noteq> length versionIds" by simp
next
  assume h: "reachable E s \<and> GetVersionsByID versionIds s = Return (Some versions, s')"
  then have "reachable E s" by simp
  then have ok: "cache_ok s" by (rule reachable_cache_ok)
  from h GetVersionsByID_returns [OF ok]
  show "\<exists>ids'. key_GetVersionsByID ids' = key_GetVersionsByID versionIds \<and>
         one_for_one ids' versions \<and> set ids' \<subseteq> ID ` set (versions_tbl s)"
    by blast
next
  assume h: "reachable E s \<and> list_all plain_id (map ID (versions_tbl s)) \<and>
      list_all plain_id versionIds"
    and len: "length (find_by_ids versionIds (versions_tbl s)) \<noteq> length versionIds"
  from h have "reachable E s" by simp
  then have ok: "cache_ok s" by (rule reachable_cache_ok)
  from h have "list_all plain_id (map ID (versions_tbl s))" "list_all plain_id versionIds"
    by simp_all
  from GetVersionsByID_mismatch [OF ok this len]
  show "GetVersionsByID versionIds s = Return (None, s)" .
next
  assume h: "reachable E s \<and> list_all plain_id (map ID (versions_tbl s)) \<and>
      list_all plain_id versionIds"
    and r: "GetVersionsByID versionIds s = Return (Some versions, s')"
  from h have "reachable E s" by simp
  then have ok: "cache_ok s" by (rule reachable_cache_ok)
  from h have p: "list_all plain_id (map ID (versions_tbl s))" "list_all plain_id versionIds"
    by simp_all
  from GetVersionsByID_plain [OF ok r p] show "one_for_one versionIds versions" by simp
  from GetVersionsByID_plain [OF ok r p]
  show "set versionIds \<subseteq> ID ` set (versions_tbl s)" by simp
qed

text \<open>
  Without the proviso the claim fails on cache hits. After the request for
  \<open>v1\<close> and \<open>w1\<close> and the request for no id at all, the cache holds both
  results. The request for the single id \<open>v1:w1\<close> has the key of the first: the store
  has no such row, so it would return no row for one id, and the operation returns the
  two cached rows. The request for the single empty id has the key of the second: it gets
  an empty list, not nil.
\<close>

theorem C9_all_or_nothing_counterexample:
  "reachable ex_env ex_ids_cached \<and>
   find_by_ids [''v1:w1''] (versions_tbl ex_ids_cached) = [] \<and>
   GetVersionsByID [''v1:w1''] ex_ids_cached =
     Return (Some [ex_row ''v1'' ''P'' ''1.0.0'' True False 3 (80 * hour),
                   ex_row ''w1'' ''Q'' ''1.0.0'' True False 7 (95 * hour)], ex_ids_cached) \<and>
   find_by_ids [''''] (versions_tbl ex_ids_cached) = [] \<and>
   GetVersionsByID [''''] ex_ids_cached = Return (Some [], ex_ids_cached)"
proof -
  have "find_by_ids [''v1:w1''] (versions_tbl ex_ids_cached) = []"
    and "find_by_ids [''''] (versions_tbl ex_ids_cached) = []"
    by (simp_all add: find_by_ids_def ex_ids_cached_def cache_set_def ex_state_def ex_small_def
        ex_row_def)
  moreover have "GetVersionsByID [''v1:w1''] ex_ids_cached =
     Return (Some [ex_row ''v1'' ''P'' ''1.0.0'' True False 3 (80 * hour),
                   ex_row ''w1'' ''Q'' ''1.0.0'' True False 7 (95 * hour)], ex_ids_cached)"
    by (simp add: GetVersionsByID_def key_GetVersionsByID_def ex_ids_cached_def cache_set_def
        ex_state_def ex_small_def)
  moreover have "GetVersionsByID [''''] ex_ids_cached = Return (Some [], ex_ids_cached)"
    by (simp add: GetVersionsByID_def key_GetVersionsByID_def ex_ids_cached_def cache_set_def
        ex_state_def)
  ultimately show ?thesis using ex_ids_cached_reachable by simp
qed

theorem C9_all_or_nothing_witness:
  "GetVersionsByID [''v1'', ''nope''] (ex_state ex_tbl) = Return (None, ex_state ex_tbl) \<and>
   GetVersionsByID [''v1'', ''v1''] (ex_state ex_tbl) = Return (None, ex_state ex_tbl) \<and>
   GetVersionsByID [''w1'', ''v1''] (ex_state ex_tbl) =
     Return (Some [ex_row ''v1'' ''P'' ''1.0.0'' True False 3 (80 * hour),
                   ex_row ''w1'' ''Q'' ''1.0.0'' True False 7 (95 * hour)],
             cache_set ''GetVersionsById_w1:v1''
               (CVersions [ex_row ''v1'' ''P'' ''1.0.0'' True False 3 (80 * hour),
                           ex_row ''w1'' ''Q'' ''1.0.0'' True False 7 (95 * hour)])
               (ex_state ex_tbl)) \<and>
   distinct (map ID (versions_tbl (ex_state ex_tbl))) \<and>
   reachable ex_env ex_ids_cached \<and>
   list_all plain_id (map ID (versions_tbl ex_ids_cached)) \<and>
   list_all plain_id [''v1'', ''w1''] \<and>
   GetVersionsByID [''v1'', ''w1''] ex_ids_cached = Return (Some ex_small, ex_ids_cached) \<and>
   one_for_one [''v1'', ''w1''] ex_small \<and>
   list_all plain_id [''v1'', ''nope''] \<and>
   length (find_by_ids [''v1'', ''nope''] (versions_tbl ex_ids_cached)) = 1 \<and>
   GetVersionsByID [''v1'', ''nope''] ex_ids_cached = Return (None, ex_ids_cached) \<and>
   dbCache ex_ids_cached (key_GetVersionsByID [''v1'', ''nope'']) = None"
proof -
  let ?s = "ex_state ex_tbl"
  let ?c = ex_ids_cached
  have miss: "dbCache ?s k = None" for k by (simp add: ex_state_def)
  have t: "versions_tbl ?s = ex_tbl" by (simp add: ex_state_def)
  have d: "distinct (map ID (versions_tbl ?s))" by (simp add: ex_defs)
  have f1: "find_by_ids [''v1'', ''nope''] ex_tbl = [ex_row ''v1'' ''P'' ''1.0.0'' True False 3 (80 * hour)]"
    and f2: "find_by_ids [''v1'', ''v1''] ex_tbl = [ex_row ''v1'' ''P'' ''1.0.0'' True False 3 (80 * hour)]"
    and f3: "find_by_ids [''w1'', ''v1''] ex_tbl =
      [ex_row ''v1'' ''P'' ''1.0.0'' True False 3 (80 * hour),
       ex_row ''w1'' ''Q'' ''1.0.0'' True False 7 (95 * hour)]"
    by (simp_all add: find_by_ids_def ex_tbl_def ex_row_def)
  have k3: "key_GetVersionsByID [''w1'', ''v1''] = ''GetVersionsById_w1:v1''"
    by (simp add: key_GetVersionsByID_def)
  have a: "GetVersionsByID [''v1'', ''nope''] ?s = Return (None, ?s)"
    using C9_all_or_nothing [where s = ?s and versionIds = "[''v1'', ''nope'']", THEN conjunct1]
    by (simp add: miss t f1)
  have b: "GetVersionsByID [''v1'', ''v1''] ?s = Return (None, ?s)"
    using C9_all_or_nothing [where s = ?s and versionIds = "[''v1'', ''v1'']", THEN conjunct1]
    by (simp add: miss t f2)
  have c: "GetVersionsByID [''w1'', ''v1''] ?s =
     Return (Some [ex_row ''v1'' ''P'' ''1.0.0'' True False 3 (80 * hour),
                   ex_row ''w1'' ''Q'' ''1.0.0'' True False 7 (95 * hour)],
             cache_set ''GetVersionsById_w1:v1''
               (CVersions [ex_row ''v1'' ''P'' ''1.0.0'' True False 3 (80 * hour),
                           ex_row ''w1'' ''Q'' ''1.0.0'' True False 7 (95 * hour)]) ?s)"
    using C9_all_or_nothing [where s = ?s and versionIds = "[''w1'', ''v1'']",
        THEN conjunct2, THEN conjunct1]
    by (simp add: miss t f3 k3)
  have tc: "versions_tbl ?c = ex_small"
    by (simp add: ex_ids_cached_def cache_set_def ex_state_def)
  have pt: "list_all plain_id (map ID (versions_tbl ?c))"
    by (simp add: tc ex_small_def ex_row_def plain_id_def)
  have p1: "list_all plain_id [''v1'', ''w1'']" and p2: "list_all plain_id [''v1'', ''nope'']"
    by (simp_all add: plain_id_def)
  have hit: "GetVersionsByID [''v1'', ''w1''] ?c = Return (Some ex_small, ?c)"
    by (simp add: GetVersionsByID_def key_GetVersionsByID_def ex_ids_cached_def cache_set_def
        ex_state_def)
  have one: "one_for_one [''v1'', ''w1''] ex_small"
    using C9_all_or_nothing [where E = ex_env and s = ?c and versionIds = "[''v1'', ''w1'']"
        and versions = ex_small and s' = ?c,
        THEN conjunct2, THEN conjunct2, THEN conjunct2, THEN conjunct2, THEN conjunct2,
        THEN conjunct2, rule_format, THEN conjunct2, rule_format, THEN conjunct1]
      ex_ids_cached_reachable pt p1 hit
    by blast
  have f4: "length (find_by_ids [''v1'', ''nope''] (versions_tbl ?c)) = 1"
    by (simp add: tc find_by_ids_def ex_small_def ex_row_def)
  have nil: "GetVersionsByID [''v1'', ''nope''] ?c = Return (None, ?c)"
    using C9_all_or_nothing [where E = ex_env and s = ?c and versionIds = "[''v1'', ''nope'']",
        THEN conjunct2, THEN conjunct2, THEN conjunct2, THEN conjunct2, THEN conjunct2,
        THEN conjunct2, rule_format, THEN conjunct1, rule_format]
      ex_ids_cached_reachable pt p2 f4
    by simp
  have none: "dbCache ?c (key_GetVersionsByID [''v1'', ''nope'']) = None"
    using C9_all_or_nothing [where s = ?c and versionIds = "[''v1'', ''nope'']" and s' = ?c,
        THEN conjunct2, THEN conjunct2, THEN conjunct2, THEN conjunct2, THEN conjunct1,
        rule_format, THEN conjunct2, THEN conjunct1]
      nil
    by blast
  from a b c d ex_ids_cached_reachable pt p1 hit one p2 f4 nil none show ?thesis by blast
qed
section \<open>Download requests\<close>

lemma known_version_resolves:
  assumes "reachable E s" and "\<exists>r\<in>set (versions_tbl s). ID r = versionID" and "versionID \<noteq> []"
  shows "\<exists>v s1. ID v = versionID \<and> GetVersion versionID s = Return (Some v, s1)"
proof (cases "dbCache s (key_GetVersion versionID)")
  case None
  from found_row_by_id [OF assms(2,3)] obtain v where v: "ID v = versionID"
      "found_row (\<lambda>r. ID r = versionID) (versions_tbl s) = Some v" by blast
  from read_through_miss [OF GetVersion_read_through None] v show ?thesis by simp
next
  case (Some c)
  from reachable_cache_ok [OF assms(1)] Some
  have "entry_ok (versions_tbl s) (key_GetVersion versionID) c" by (simp add: cache_ok_def)
  then obtain v where v: "c = CVersionPtr v" "ID v = versionID"
    unfolding entry_ok_def by blast
  from read_through_hit [OF GetVersion_read_through Some, of "Some v"] v show ?thesis
    by (simp add: the_version_ptr_def)
qed

text \<open>
  C4. In every reachable state a request for an id that a stored version has (the
  empty id apart) is answered with the redirect to the download link of that version,
  whatever the limiter says; more generally this holds whenever \<open>GetVersion\<close> resolves
  the id. When nothing is cached for the id and no row has it, the answer is 404 and the
  whole state, limiter and counters included, is as before. Of two requests by the same
  client for the same version less than four hours apart, at most one writes to the
  table: if the limiter admits the first, the second leaves the table alone, and if it
  does not, the first leaves it alone; and as long as the client's key is closed, a
  request leaves the table alone.
\<close>

theorem C4_download:
  "(GetVersion versionID s = Return (Some version, s1) \<longrightarrow>
      (\<exists>s3. downloadVersion E realIP versionID now s =
         Return (Redirect 302 (GenerateDownloadLink E (Key version)), s3))) \<and>
   ((\<exists>r\<in>set (versions_tbl s). ID r = versionID) \<and> versionID \<noteq> [] \<and>
      dbCache s (key_GetVersion versionID) = None \<longrightarrow>
      (\<exists>v\<in>set (versions_tbl s). ID v = versionID \<and>
         GetVersion versionID s =
           Return (Some v, cache_set (key_GetVersion versionID) (CVersionPtr v) s))) \<and>
   (dbCache s (key_GetVersion versionID) = None \<and>
      \<not> (\<exists>r\<in>set (versions_tbl s). ID r = versionID) \<longrightarrow>
      downloadVersion E realIP versionID now s = Return (String 404 ''version not found'', s)) \<and>
   (now \<le> now' \<and> now' < now + hour * 4 \<longrightarrow>
      (fst (CanIncrement (limiter s) realIP ''download'' (''version:'' @ versionID) (hour * 4) now) \<longrightarrow>
         versions_tbl (state_after (state_after s (downloadVersion E realIP versionID now s))
           (downloadVersion E realIP versionID now'
              (state_after s (downloadVersion E realIP versionID now s)))) =
         versions_tbl (state_after s (downloadVersion E realIP versionID now s))) \<and>
      (\<not> fst (CanIncrement (limiter s) realIP ''download'' (''version:'' @ versionID) (hour * 4) now) \<longrightarrow>
         versions_tbl (state_after s (downloadVersion E realIP versionID now s)) = versions_tbl s)) \<and>
   (limiter s (realIP, ''download'', ''version:'' @ versionID) = Some until \<and> now < until \<longrightarrow>
      versions_tbl (state_after s (downloadVersion E realIP versionID now s)) = versions_tbl s) \<and>
   (reachable E s \<and> (\<exists>r\<in>set (versions_tbl s). ID r = versionID) \<and> versionID \<noteq> [] \<longrightarrow>
      (\<exists>(v::Version) s3. ID v = versionID \<and>
         downloadVersion E realIP versionID now s =
           Return (Redirect 302 (GenerateDownloadLink E (Key v)), s3)))"
proof (intro conjI impI)
  assume "GetVersion versionID s = Return (Some version, s1)"
  then show "\<exists>s3. downloadVersion E realIP versionID now s =
         Return (Redirect 302 (GenerateDownloadLink E (Key version)), s3)"
    by (rule download_redirects)
next
  assume h: "(\<exists>r\<in>set (versions_tbl s). ID r = versionID) \<and> versionID \<noteq> [] \<and>
      dbCache s (key_GetVersion versionID) = None"
  then obtain v where v: "v \<in> set (versions_tbl s)" "ID v = versionID"
      "found_row (\<lambda>r. ID r = versionID) (versions_tbl s) = Some v"
    using found_row_by_id [of "versions_tbl s" versionID] by blast
  from h have "GetVersion versionID s =
      Return (Some v, cache_set (key_GetVersion versionID) (CVersionPtr v) s)"
    using read_through_miss [OF GetVersion_read_through, of s versionID] by (simp add: v(3))
  with v show "\<exists>v\<in>set (versions_tbl s). ID v = versionID \<and>
         GetVersion versionID s =
           Return (Some v, cache_set (key_GetVersion versionID) (CVersionPtr v) s)"
    by blast
next
  assume "dbCache s (key_GetVersion versionID) = None \<and>
      \<not> (\<exists>r\<in>set (versions_tbl s). ID r = versionID)"
  then show "downloadVersion E realIP versionID now s = Return (String 404 ''version not found'', s)"
    using download_unknown by blast
next
  assume "now \<le> now' \<and> now' < now + hour * 4"
    and "fst (CanIncrement (limiter s) realIP ''download'' (''version:'' @ versionID) (hour * 4) now)"
  then show "versions_tbl (state_after (state_after s (downloadVersion E realIP versionID now s))
           (downloadVersion E realIP versionID now'
              (state_after s (downloadVersion E realIP versionID now s)))) =
         versions_tbl (state_after s (downloadVersion E realIP versionID now s))"
    using download_twice by blast
next
  assume "\<not> fst (CanIncrement (limiter s) realIP ''download'' (''version:'' @ versionID) (hour * 4) now)"
  then show "versions_tbl (state_after s (downloadVersion E realIP versionID now s)) = versions_tbl s"
    by (rule download_not_admitted)
next
  assume "limiter s (realIP, ''download'', ''version:'' @ versionID) = Some until \<and> now < until"
  then show "versions_tbl (state_after s (downloadVersion E realIP versionID now s)) = versions_tbl s"
    using download_denied by blast
next
  assume "reachable E s \<and> (\<exists>r\<in>set (versions_tbl s). ID r = versionID) \<and> versionID \<noteq> []"
  then obtain v s1' where v: "ID v = versionID" "GetVersion versionID s = Return (Some v, s1')"
    using known_version_resolves [of E s versionID] by blast
  from download_redirects [OF v(2), of E realIP now] obtain s3 where
    "downloadVersion E realIP versionID now s =
       Return (Redirect 302 (GenerateDownloadLink E (Key v)), s3)" by blast
  with v(1) show "\<exists>(v::Version) s3. ID v = versionID \<and>
         downloadVersion E realIP versionID now s =
           Return (Redirect 302 (GenerateDownloadLink E (Key v)), s3)"
    by blast
qed

theorem C4_download_witness:
  "downloadVersion ex_env ''10.0.0.1'' ''v1'' (100 * hour) (ex_state ex_small) =
     Return (Redirect 302 ''https://blobs.example/objects/v1'', ex_after_download) \<and>
   downloadVersion ex_env ''10.0.0.1'' ''v1'' (101 * hour) ex_after_download =
     Return (Redirect 302 ''https://blobs.example/objects/v1'', ex_after_download) \<and>
   versions_tbl (state_after ex_after_download
      (downloadVersion ex_env ''10.0.0.1'' ''v1'' (101 * hour) ex_after_download)) =
     versions_tbl ex_after_download \<and>
   downloadVersion ex_env ''10.0.0.1'' ''nope'' (100 * hour) (ex_state ex_small) =
     Return (String 404 ''version not found'', ex_state ex_small)"
proof -
  let ?s = "ex_state ex_small"
  have miss: "dbCache ?s k = None" for k by (simp add: ex_state_def)
  have no: "\<not> (\<exists>r\<in>set (versions_tbl ?s). ID r = ''nope'')"
    by (simp add: ex_state_def ex_small_def ex_row_def)
  have adm: "fst (CanIncrement (limiter ?s) ''10.0.0.1'' ''download'' (''version:'' @ ''v1'') (hour * 4) (100 * hour))"
    by (simp add: CanIncrement_def ex_state_def)
  have t: "100 * hour \<le> 101 * hour \<and> 101 * hour < 100 * hour + hour * 4"
    by (simp add: hour_def minute_def second_def)
  note T = C4_download [where s = ?s and E = ex_env and realIP = "''10.0.0.1''" and now = "100 * hour"]
  have a: "downloadVersion ex_env ''10.0.0.1'' ''nope'' (100 * hour) ?s =
      Return (String 404 ''version not found'', ?s)"
    using T [where versionID = "''nope''", THEN conjunct2, THEN conjunct2, THEN conjunct1] miss no
    by blast
  have b: "versions_tbl (state_after (state_after ?s (downloadVersion ex_env ''10.0.0.1'' ''v1'' (100 * hour) ?s))
           (downloadVersion ex_env ''10.0.0.1'' ''v1'' (101 * hour)
              (state_after ?s (downloadVersion ex_env ''10.0.0.1'' ''v1'' (100 * hour) ?s)))) =
         versions_tbl (state_after ?s (downloadVersion ex_env ''10.0.0.1'' ''v1'' (100 * hour) ?s))"
    using T [where versionID = "''v1''" and now' = "101 * hour", THEN conjunct2, THEN conjunct2,
        THEN conjunct2] t adm
    by blast
  have s1: "state_after ?s (downloadVersion ex_env ''10.0.0.1'' ''v1'' (100 * hour) ?s) = ex_after_download"
    by (simp add: ex_download_first state_after_def)
  from b have c: "versions_tbl (state_after ex_after_download
      (downloadVersion ex_env ''10.0.0.1'' ''v1'' (101 * hour) ex_after_download)) =
     versions_tbl ex_after_download"
    by (simp only: s1)
  from ex_download_first ex_download_second c a show ?thesis by blast
qed

end
